theory Spec2Isabelle
  imports Main "HOL-Library.Multiset" "HOL-Library.Char_ord" "HOL-Library.List_Lexorder"
begin

section \<open>JavaScript values\<close>

text \<open>
  The optional string fields of the flight-status API and of the catalog take three shapes
  in \<^verbatim>\<open>fleet-update.js\<close>: \<^verbatim>\<open>undefined\<close> (what an optional chain \<^verbatim>\<open>?.\<close>
  yields on an absent object), \<^verbatim>\<open>null\<close> and a string. Strict equality \<^verbatim>\<open>===\<close>
  on these values is equality of the datatype.
\<close>

datatype jsval = JUndefined | JNull | JStr string

text \<open>Truthiness: \<^verbatim>\<open>undefined\<close>, \<^verbatim>\<open>null\<close> and the empty string are falsy.\<close>

fun truthy :: "jsval \<Rightarrow> bool" where
  "truthy (JStr s) = (s \<noteq> [])"
| "truthy JNull = False"
| "truthy JUndefined = False"

text \<open>\<^verbatim>\<open>x || null\<close>\<close>

definition or_null :: "jsval \<Rightarrow> jsval" where
  "or_null v = (if truthy v then v else JNull)"

text \<open>\<^verbatim>\<open>x || ''\<close>, whose result is always a string.\<close>

definition or_empty :: "jsval \<Rightarrow> string" where
  "or_empty v = (case v of JStr s \<Rightarrow> s | _ \<Rightarrow> [])"

text \<open>The string a template literal \<^verbatim>\<open>`${x}`\<close> inserts for a value.\<close>

fun to_str :: "jsval \<Rightarrow> string" where
  "to_str JUndefined = ''undefined''"
| "to_str JNull = ''null''"
| "to_str (JStr s) = s"

text \<open>An optional chain \<^verbatim>\<open>obj?.field\<close>.\<close>

definition opt_chain :: "'a option \<Rightarrow> ('a \<Rightarrow> jsval) \<Rightarrow> jsval" where
  "opt_chain obj field = (case obj of None \<Rightarrow> JUndefined | Some x \<Rightarrow> field x)"

text \<open>\<^verbatim>\<open>haystack.includes(needle)\<close>\<close>

fun str_includes :: "string \<Rightarrow> string \<Rightarrow> bool" where
  "str_includes [] needle = (needle = [])"
| "str_includes (c # cs) needle = (take (length needle) (c # cs) = needle \<or> str_includes cs needle)"

text \<open>The regular-expression class \<^verbatim>\<open>\d\<close> is the ten ASCII digits.\<close>

definition is_digit :: "char \<Rightarrow> bool" where
  "is_digit c = (c \<in> set ''0123456789'')"

definition digit_val :: "char \<Rightarrow> int" where
  "digit_val c = int (of_char c) - 48"

text \<open>\<^verbatim>\<open>parseInt(s, 10)\<close> on a string of digits.\<close>

definition parseInt10 :: "string \<Rightarrow> int" where
  "parseInt10 ds = foldl (\<lambda>n c. 10 * n + digit_val c) 0 ds"

text \<open>The decimal rendering of a non-negative integer inside a template literal.\<close>

fun show_nat :: "nat \<Rightarrow> string" where
  "show_nat n =
     (if n < 10 then [''0123456789'' ! n]
      else show_nat (n div 10) @ [''0123456789'' ! (n mod 10)])"

declare show_nat.simps [simp del]

text \<open>
  A JavaScript number is an IEEE 754 double. The counters of the catalog hold whole numbers;
  a whole number is a double when it has at most 53 significant bits. \<open>to_double m\<close> is
  the double nearest to the whole number \<open>m\<close>, a tie going to the even significand, which
  is what an addition returns for the exact sum \<open>m\<close>: up to \<open>2^53\<close> in absolute value
  every whole number is a double, and above that the doubles with \<open>n\<close> bits are the
  multiples of \<open>2^(n - 53)\<close>. The sum of a finite double and 1 never overflows.
\<close>

function bit_length :: "int \<Rightarrow> nat" where
  "bit_length n = (if n \<le> 0 then 0 else Suc (bit_length (n div 2)))"
  by pat_completeness auto
termination
  by (relation "measure nat") auto

declare bit_length.simps [simp del]

text \<open>The multiple of \<open>u\<close> nearest to \<open>a\<close>, a tie going to the even multiple.\<close>

definition round_half_even :: "int \<Rightarrow> int \<Rightarrow> int" where
  "round_half_even u a =
     (let q = a div u; r = a mod u
      in if 2 * r < u then q * u
         else if u < 2 * r then (q + 1) * u
         else if even q then q * u else (q + 1) * u)"

definition to_double :: "int \<Rightarrow> int" where
  "to_double m =
     (if \<bar>m\<bar> \<le> 9007199254740992 then m
      else sgn m * round_half_even (2 ^ (bit_length \<bar>m\<bar> - 53)) \<bar>m\<bar>)"

section \<open>Data extraction\<close>

text \<open>
  The aircraft object of a flight leg as the API returns it, a leg and a flight. An absent
  property reads as \<^verbatim>\<open>undefined\<close>; \<open>flightLegs = None\<close> is a flight without the
  array, \<open>api_aircraft = None\<close> a leg without the aircraft object.
\<close>

record api_aircraft =
  api_registration :: jsval
  api_typeCode :: jsval
  api_typeName :: jsval
  api_subFleetCodeId :: jsval
  api_ownerAirlineCode :: jsval
  api_ownerAirlineName :: jsval
  api_cabinCrewEmployer :: jsval
  api_cockpitCrewEmployer :: jsval
  api_wifiEnabled :: jsval
  api_highSpeedWifi :: jsval
  api_satelliteConnectivityOnBoard :: jsval
  api_physicalPaxConfiguration :: jsval

record flight_leg =
  leg_aircraft :: "api_aircraft option"

record flight =
  flightLegs :: "flight_leg list option"

text \<open>The flat observation \<^verbatim>\<open>extractAircraftFromFlight\<close> returns.\<close>

record observation =
  obs_registration :: string
  typeCode :: jsval
  typeName :: jsval
  subFleetCode :: jsval
  ownerAirlineCode :: jsval
  ownerAirlineName :: jsval
  cabinCrewEmployer :: jsval
  cockpitCrewEmployer :: jsval
  wifiEnabled :: jsval
  highSpeedWifi :: jsval
  satelliteConnectivity :: jsval
  physicalPaxConfiguration :: jsval

text \<open>
  \<^verbatim>\<open>extractAircraftFromFlight\<close>: \<open>None\<close> is the source's \<^verbatim>\<open>return null\<close>. The first leg
  is \<^verbatim>\<open>flight.flightLegs?.[0]\<close>, which is \<^verbatim>\<open>undefined\<close> for an absent or empty array.
\<close>

definition extractAircraftFromFlight :: "flight \<Rightarrow> string \<Rightarrow> observation option" where
  "extractAircraftFromFlight fl airlineCode =
     (case flightLegs fl of
        None \<Rightarrow> None
      | Some [] \<Rightarrow> None
      | Some (leg # _) \<Rightarrow>
          (case leg_aircraft leg of
             None \<Rightarrow> None
           | Some ac \<Rightarrow>
               (case api_registration ac of
                  JStr r \<Rightarrow>
                    if r = [] then None
                    else if api_ownerAirlineCode ac \<noteq> JStr airlineCode then None
                    else Some \<lparr>obs_registration = r,
                      typeCode = or_null (api_typeCode ac),
                      typeName = or_null (api_typeName ac),
                      subFleetCode = or_null (api_subFleetCodeId ac),
                      ownerAirlineCode = or_null (api_ownerAirlineCode ac),
                      ownerAirlineName = or_null (api_ownerAirlineName ac),
                      cabinCrewEmployer = or_null (api_cabinCrewEmployer ac),
                      cockpitCrewEmployer = or_null (api_cockpitCrewEmployer ac),
                      wifiEnabled = or_null (api_wifiEnabled ac),
                      highSpeedWifi = or_null (api_highSpeedWifi ac),
                      satelliteConnectivity = or_null (api_satelliteConnectivityOnBoard ac),
                      physicalPaxConfiguration = or_null (api_physicalPaxConfiguration ac)\<rparr>
                | _ \<Rightarrow> None)))"

section \<open>Cabin parsing\<close>

record cabin_classes =
  first :: int
  business :: int
  premium_economy :: int
  economy :: int

datatype class_key = First | Business | PremiumEconomy | Economy

text \<open>The table \<^verbatim>\<open>mapping\<close> of \<^verbatim>\<open>parseCabinConfig\<close>; \<open>None\<close> is a letter without entry.\<close>

definition mapping :: "char \<Rightarrow> class_key option" where
  "mapping c =
     (if c = CHR ''P'' \<or> c = CHR ''F'' then Some First
      else if c = CHR ''J'' \<or> c = CHR ''C'' then Some Business
      else if c = CHR ''W'' \<or> c = CHR ''S'' then Some PremiumEconomy
      else if c = CHR ''Y'' \<or> c = CHR ''M'' then Some Economy
      else None)"

text \<open>\<^verbatim>\<open>classes[classKey] += n\<close>\<close>

fun add_seats :: "class_key \<Rightarrow> int \<Rightarrow> cabin_classes \<Rightarrow> cabin_classes" where
  "add_seats First n cls = cls\<lparr>first := first cls + n\<rparr>"
| "add_seats Business n cls = cls\<lparr>business := business cls + n\<rparr>"
| "add_seats PremiumEconomy n cls = cls\<lparr>premium_economy := premium_economy cls + n\<rparr>"
| "add_seats Economy n cls = cls\<lparr>economy := economy cls + n\<rparr>"

definition no_seats :: cabin_classes where
  "no_seats = \<lparr>first = 0, business = 0, premium_economy = 0, economy = 0\<rparr>"

text \<open>
  One attempt of the regular expression \<^verbatim>\<open>/([PFJCWSYM])(\d{2,3})/\<close> at the head of the
  input: the letter and the digit group it captures. The quantifier is greedy, so a third
  digit is taken when there is one.
\<close>

fun match_token :: "string \<Rightarrow> (char \<times> string) option" where
  "match_token (c # d1 # d2 # rest) =
     (if c \<in> set ''PFJCWSYM'' \<and> is_digit d1 \<and> is_digit d2
      then (case rest of
              d3 # _ \<Rightarrow> if is_digit d3 then Some (c, [d1, d2, d3]) else Some (c, [d1, d2])
            | [] \<Rightarrow> Some (c, [d1, d2]))
      else None)"
| "match_token _ = None"

text \<open>
  The loop \<^verbatim>\<open>while ((match = regex.exec(config)) !== null)\<close>: with the \<^verbatim>\<open>g\<close> flag each
  search starts where the previous match ended and finds the leftmost match from there.
\<close>

function scan_config :: "string \<Rightarrow> cabin_classes \<Rightarrow> cabin_classes" where
  "scan_config [] cls = cls"
| "scan_config (c # cs) cls =
     (case match_token (c # cs) of
        Some (l, ds) \<Rightarrow>
          scan_config (drop (length ds) cs)
            (case mapping l of Some k \<Rightarrow> add_seats k (parseInt10 ds) cls | None \<Rightarrow> cls)
      | None \<Rightarrow> scan_config cs cls)"
  by pat_completeness auto
termination
  by (relation "measure (\<lambda>(s, cls). length s)") auto

definition parseCabinConfig :: "jsval \<Rightarrow> cabin_classes" where
  "parseCabinConfig config =
     (if \<not> truthy config then no_seats else scan_config (to_str config) no_seats)"

section \<open>Schema transformation\<close>

definition convertWifi :: "jsval \<Rightarrow> jsval \<Rightarrow> string" where
  "convertWifi we hs =
     (if we \<noteq> JStr ''Y'' then ''none''
      else if hs = JStr ''Y'' then ''high-speed''
      else ''low-speed'')"

text \<open>
  \<^verbatim>\<open>toUpperCase\<close> on the ASCII letters; the type names of the API are ASCII.
\<close>

definition to_upper :: "char \<Rightarrow> char" where
  "to_upper c =
     (if 97 \<le> (of_char c :: nat) \<and> (of_char c :: nat) \<le> 122
      then char_of ((of_char c :: nat) - 32) else c)"

definition guessManufacturer :: "jsval \<Rightarrow> jsval" where
  "guessManufacturer tn =
     (if \<not> truthy tn then JNull
      else if str_includes (map to_upper (to_str tn)) ''AIRBUS'' then JStr ''Airbus''
      else if str_includes (map to_upper (to_str tn)) ''BOEING'' then JStr ''Boeing''
      else if str_includes (map to_upper (to_str tn)) ''EMBRAER'' then JStr ''Embraer''
      else JNull)"

definition three_digits :: "string \<Rightarrow> bool" where
  "three_digits s = (3 \<le> length s \<and> list_all is_digit (take 3 s))"

text \<open>
  \<^verbatim>\<open>typeName.match(/A(\d{3})|(\d{3})/)\<close>: the leftmost position where one of the two
  alternatives matches, the first alternative tried first.
\<close>

fun match_model :: "string \<Rightarrow> jsval" where
  "match_model [] = JNull"
| "match_model (c # cs) =
     (if c = CHR ''A'' \<and> three_digits cs then JStr (CHR ''A'' # take 3 cs)
      else if three_digits (c # cs) then JStr (take 3 (c # cs))
      else match_model cs)"

definition guessModel :: "jsval \<Rightarrow> jsval" where
  "guessModel tn = (if \<not> truthy tn then JNull else match_model (to_str tn))"

text \<open>\<^verbatim>\<open>typeName.match(/-(\d+)/)\<close>\<close>

fun match_variant :: "string \<Rightarrow> jsval" where
  "match_variant [] = JNull"
| "match_variant (c # cs) =
     (if c = CHR ''-'' \<and> takeWhile is_digit cs \<noteq> [] then JStr (takeWhile is_digit cs)
      else match_variant cs)"

definition guessVariant :: "jsval \<Rightarrow> jsval" where
  "guessVariant tn = (if \<not> truthy tn then JNull else match_variant (to_str tn))"

section \<open>The catalog\<close>

text \<open>
  An aircraft record of the catalog. The sub-objects the source reads through an optional
  chain (\<^verbatim>\<open>existing.connectivity?.wifi\<close>, \<^verbatim>\<open>a.tracking?.last_seen\<close>,
  \<^verbatim>\<open>a.aircraft_type?.iata_code\<close>, ...) may be absent, which is \<open>None\<close>. In
  \<open>tracking\<close>, \<open>None\<close> in \<open>last_seen\<close> or \<open>total_flights\<close> is an absent or
  \<^verbatim>\<open>null\<close> property, and a counter that is present is a whole number that is a double.
\<close>

record aircraft_type_info =
  iata_code :: jsval
  icao_code :: jsval
  manufacturer :: jsval
  model :: jsval
  variant :: jsval
  full_name :: jsval

record operator_info =
  sub_fleet_code :: jsval
  cabin_crew_employer :: jsval
  cockpit_crew_employer :: jsval

record cabin_info =
  physical_configuration :: jsval
  saleable_configuration :: jsval
  total_seats :: "int option"
  classes :: cabin_classes
  freight_configuration :: jsval

record connectivity_info =
  wifi :: jsval
  wifi_provider :: jsval
  satellite :: bool

record tracking_info =
  first_seen :: string
  last_seen :: "string option"
  total_flights :: "int option"

record metadata_info =
  created_at :: string
  updated_at :: string

record change =
  timestamp :: string
  property :: string
  old_value :: jsval
  new_value :: jsval
  source :: string

record aircraft =
  registration :: string
  icao24 :: jsval
  aircraft_type :: "aircraft_type_info option"
  operator :: "operator_info option"
  cabin :: "cabin_info option"
  connectivity :: "connectivity_info option"
  status :: string
  tracking :: "tracking_info option"
  metadata :: metadata_info
  history :: "change list"

text \<open>\<^verbatim>\<open>Object.values(cabinClasses).reduce((a, b) => a + b, 0) || null\<close>\<close>

definition seat_total :: "cabin_classes \<Rightarrow> int option" where
  "seat_total cls =
     (let s = 0 + first cls + business cls + premium_economy cls + economy cls
      in if s = 0 then None else Some s)"

text \<open>
  \<^verbatim>\<open>transformToSchema\<close>. The two readings of the clock, \<^verbatim>\<open>new Date().toISOString()\<close>
  for \<open>created_at\<close> and for \<open>updated_at\<close>, are the parameters \<open>now1\<close> and \<open>now2\<close>.
\<close>

definition transformToSchema :: "observation \<Rightarrow> string \<Rightarrow> string \<Rightarrow> string \<Rightarrow> aircraft" where
  "transformToSchema raw firstSeenDate now1 now2 =
     (let cabinClasses = parseCabinConfig (physicalPaxConfiguration raw) in
      \<lparr>registration = obs_registration raw,
       icao24 = JNull,
       aircraft_type = Some \<lparr>iata_code = typeCode raw, icao_code = JNull,
         manufacturer = guessManufacturer (typeName raw),
         model = guessModel (typeName raw),
         variant = guessVariant (typeName raw),
         full_name = typeName raw\<rparr>,
       operator = Some \<lparr>sub_fleet_code = subFleetCode raw,
         cabin_crew_employer = cabinCrewEmployer raw,
         cockpit_crew_employer = cockpitCrewEmployer raw\<rparr>,
       cabin = Some \<lparr>physical_configuration = physicalPaxConfiguration raw,
         saleable_configuration = JNull,
         total_seats = seat_total cabinClasses,
         classes = cabinClasses,
         freight_configuration = JNull\<rparr>,
       connectivity = Some \<lparr>wifi = JStr (convertWifi (wifiEnabled raw) (highSpeedWifi raw)),
         wifi_provider = (if highSpeedWifi raw = JStr ''Y'' then JStr ''Starlink'' else JNull),
         satellite = (satelliteConnectivity raw = JStr ''Y'')\<rparr>,
       status = ''active'',
       tracking = Some \<lparr>first_seen = firstSeenDate, last_seen = Some firstSeenDate,
         total_flights = Some 1\<rparr>,
       metadata = \<lparr>created_at = now1, updated_at = now2\<rparr>,
       history = []\<rparr>)"

section \<open>The API client\<close>

text \<open>
  What the source throws: \<^verbatim>\<open>new Error(message)\<close>, and the \<^verbatim>\<open>TypeError\<close> of a property
  access on \<^verbatim>\<open>undefined\<close>.
\<close>

datatype error = Error string | TypeError string

fun message :: "error \<Rightarrow> string" where
  "message (Error m) = m"
| "message (TypeError m) = m"

text \<open>
  One HTTP request as the server sees it (the \<^verbatim>\<open>API-Key\<close> header, the date of the range,
  the airline and the page number), the JSON body of a page and the response. The remote
  API is a function from the number of requests made before and the request to a response,
  so it may answer the same request differently over time. Every request is answered by a
  response whose body parses; a \<^verbatim>\<open>fetch\<close> that rejects is not part of the model.
\<close>

record request =
  req_key :: jsval
  req_date :: string
  req_airline :: string
  req_page :: nat

record api_page =
  operationalFlights :: "flight list option"
  totalPages :: "int option"

record response =
  resp_status :: nat
  resp_statusText :: string
  resp_body :: api_page

type_synonym server = "nat \<Rightarrow> request \<Rightarrow> response"

text \<open>\<^verbatim>\<open>response.ok\<close>\<close>

definition resp_ok :: "response \<Rightarrow> bool" where
  "resp_ok r = (200 \<le> resp_status r \<and> resp_status r \<le> 299)"

text \<open>
  The state of the client: \<^verbatim>\<open>CONFIG.apiKeys\<close>, the globals \<^verbatim>\<open>currentKeyIndex\<close> and
  \<^verbatim>\<open>totalRequests\<close>, and the requests sent so far, oldest first, which is the effect of
  the calls of \<^verbatim>\<open>fetch\<close>. The waiting of \<^verbatim>\<open>throttle\<close> changes no value and is left out.
\<close>

record client =
  apiKeys :: "string list"
  currentKeyIndex :: nat
  totalRequests :: nat
  sent :: "request list"

definition getApiKey :: "client \<Rightarrow> jsval" where
  "getApiKey c =
     (if currentKeyIndex c < length (apiKeys c) then JStr (apiKeys c ! currentKeyIndex c)
      else JUndefined)"

text \<open>\<^verbatim>\<open>rotateKey\<close> is only called with two keys or more.\<close>

definition rotateKey :: "client \<Rightarrow> client" where
  "rotateKey c = c\<lparr>currentKeyIndex := (currentKeyIndex c + 1) mod length (apiKeys c)\<rparr>"

function apiRequest ::
  "server \<Rightarrow> client \<Rightarrow> string \<Rightarrow> string \<Rightarrow> nat \<Rightarrow> nat \<Rightarrow> (error + api_page) \<times> client" where
  "apiRequest srv c dateStr airlineCode pageNumber retryCount =
     (let c1 = c\<lparr>totalRequests := totalRequests c + 1\<rparr>;
          c2 = (if length (apiKeys c1) > 1 \<and> retryCount = 0 then rotateKey c1 else c1);
          rq = \<lparr>req_key = getApiKey c2, req_date = dateStr, req_airline = airlineCode,
                req_page = pageNumber\<rparr>;
          resp = srv (length (sent c2)) rq;
          c3 = c2\<lparr>sent := sent c2 @ [rq]\<rparr>
      in if \<not> resp_ok resp then
           (if (resp_status resp = 429 \<or> resp_status resp = 403)
               \<and> int retryCount < int (length (apiKeys c3)) - 1
            then apiRequest srv (rotateKey c3) dateStr airlineCode pageNumber (retryCount + 1)
            else (Inl (Error (''API Error: '' @ show_nat (resp_status resp) @ '' ''
                              @ resp_statusText resp)), c3))
         else (Inr (resp_body resp), c3))"
  by pat_completeness auto
termination
  by (relation "measure (\<lambda>(srv, c, d, a, p, r). length (apiKeys c) - r)")
     (auto simp: rotateKey_def)

declare apiRequest.simps [simp del]

text \<open>
  The loop of \<^verbatim>\<open>fetchFlightsForDate\<close>, entered with \<^verbatim>\<open>hasMore = true\<close>; one call is one
  iteration.
\<close>

function fetch_pages ::
  "server \<Rightarrow> client \<Rightarrow> string \<Rightarrow> string \<Rightarrow> nat \<Rightarrow> flight list \<Rightarrow> (error + flight list) \<times> client" where
  "fetch_pages srv c dateStr airlineCode pageNumber allFlights =
     (case apiRequest srv c dateStr airlineCode pageNumber 0 of
        (Inl e, c') \<Rightarrow>
          if str_includes (message e) ''403'' \<or> str_includes (message e) ''429''
          then (Inr allFlights, c')
          else (Inl e, c')
      | (Inr resp, c') \<Rightarrow>
          (let flights = (case operationalFlights resp of None \<Rightarrow> [] | Some fs \<Rightarrow> fs);
               allFlights' = allFlights @ flights;
               total = (case totalPages resp of None \<Rightarrow> 1 | Some t \<Rightarrow> if t = 0 then 1 else t);
               hasMore = (int pageNumber < total - 1);
               pageNumber' = pageNumber + 1
           in if pageNumber' > 100 then (Inr allFlights', c')
              else if hasMore
                then fetch_pages srv c' dateStr airlineCode pageNumber' allFlights'
                else (Inr allFlights', c')))"
  by pat_completeness auto
termination
  by (relation "measure (\<lambda>(srv, c, d, a, p, fs). 101 - p)") auto

declare fetch_pages.simps [simp del]

definition fetchFlightsForDate ::
  "server \<Rightarrow> client \<Rightarrow> string \<Rightarrow> string \<Rightarrow> (error + flight list) \<times> client" where
  "fetchFlightsForDate srv c dateStr airlineCode = fetch_pages srv c dateStr airlineCode 0 []"

section \<open>Update logic\<close>

text \<open>One \<^verbatim>\<open>if (old !== new) changes.push({...})\<close> of \<^verbatim>\<open>detectChanges\<close>.\<close>

definition tracked_change :: "string \<Rightarrow> string \<Rightarrow> jsval \<Rightarrow> jsval \<Rightarrow> change list" where
  "tracked_change dateStr prop old new =
     (if old \<noteq> new
      then [\<lparr>timestamp = dateStr, property = prop, old_value = old, new_value = new,
             source = ''airline_api''\<rparr>]
      else [])"

definition detectChanges :: "aircraft \<Rightarrow> aircraft \<Rightarrow> string \<Rightarrow> change list" where
  "detectChanges existing newData dateStr =
     tracked_change dateStr ''connectivity.wifi''
       (opt_chain (connectivity existing) wifi) (opt_chain (connectivity newData) wifi)
     @ tracked_change dateStr ''connectivity.wifi_provider''
       (opt_chain (connectivity existing) wifi_provider)
       (opt_chain (connectivity newData) wifi_provider)
     @ tracked_change dateStr ''cabin.physical_configuration''
       (opt_chain (cabin existing) physical_configuration)
       (opt_chain (cabin newData) physical_configuration)
     @ tracked_change dateStr ''operator.sub_fleet_code''
       (opt_chain (operator existing) sub_fleet_code)
       (opt_chain (operator newData) sub_fleet_code)"

text \<open>
  The key of a history entry in \<^verbatim>\<open>mergeAircraft\<close>:
  \<^verbatim>\<open>`${h.timestamp}|${h.property}|${h.old_value}|${h.new_value}`\<close>
\<close>

definition change_key :: "change \<Rightarrow> string" where
  "change_key h =
     timestamp h @ ''|'' @ property h @ ''|'' @ to_str (old_value h) @ ''|''
     @ to_str (new_value h)"

text \<open>
  The loop \<^verbatim>\<open>for (const change of changes)\<close>; \<open>existingKeys\<close> is computed once, before
  the loop, and stays as it is while the loop pushes.
\<close>

fun push_new :: "string set \<Rightarrow> change list \<Rightarrow> change list \<Rightarrow> change list" where
  "push_new existingKeys hist [] = hist"
| "push_new existingKeys hist (c # cs) =
     push_new existingKeys (if change_key c \<notin> existingKeys then hist @ [c] else hist) cs"

text \<open>
  \<^verbatim>\<open>(existing.tracking.total_flights || 0) + 1\<close>, an addition of doubles: from \<open>2^53\<close>
  on the sum is not always the next whole number.
\<close>

definition next_total_flights :: "int option \<Rightarrow> int" where
  "next_total_flights tf =
     to_double ((case tf of None \<Rightarrow> 0 | Some n \<Rightarrow> if n = 0 then 0 else n) + 1)"

text \<open>
  \<^verbatim>\<open>mergeAircraft\<close> mutates \<open>existing\<close> in place and returns it. Writing into
  \<^verbatim>\<open>existing.cabin\<close> or \<^verbatim>\<open>existing.tracking\<close> and reading from \<^verbatim>\<open>newData.cabin\<close> throw
  a \<^verbatim>\<open>TypeError\<close> when that object is absent; the error ends the run, so the partly
  mutated record is never seen. \<open>now\<close> is the clock read for \<open>updated_at\<close>.
\<close>

definition mergeAircraft ::
  "aircraft \<Rightarrow> aircraft \<Rightarrow> change list \<Rightarrow> string \<Rightarrow> string \<Rightarrow> error + aircraft" where
  "mergeAircraft existing newData changes dateStr now =
     (case cabin existing of
        None \<Rightarrow> Inl (TypeError ''Cannot set properties of undefined'')
      | Some ec \<Rightarrow>
     (case cabin newData of
        None \<Rightarrow> Inl (TypeError ''Cannot read properties of undefined'')
      | Some nc \<Rightarrow>
     (case tracking existing of
        None \<Rightarrow> Inl (TypeError ''Cannot set properties of undefined'')
      | Some tr \<Rightarrow>
          Inr (existing\<lparr>
            connectivity := connectivity newData,
            cabin := Some (ec\<lparr>physical_configuration := physical_configuration nc,
                               total_seats := total_seats nc,
                               classes := classes nc\<rparr>),
            operator := operator newData,
            aircraft_type := aircraft_type newData,
            tracking := Some (tr\<lparr>last_seen := Some dateStr,
                                  total_flights := Some (next_total_flights (total_flights tr))\<rparr>),
            metadata := (metadata existing)\<lparr>updated_at := now\<rparr>,
            history :=
              (if changes \<noteq> []
               then push_new (set (map change_key (history existing))) (history existing) changes
               else history existing)\<rparr>))))"

text \<open>
  The branch of \<^verbatim>\<open>main\<close> for a registration the catalog has (the \<^verbatim>\<open>else\<close> of
  \<^verbatim>\<open>if (!existing)\<close>): the changes, which of the counters \<^verbatim>\<open>totalUpdated\<close> and
  \<^verbatim>\<open>totalSeen\<close> it increments, and the record as it is afterwards.
\<close>

datatype action = CREATE | UPDATE | SEEN

definition reconcile ::
  "bool \<Rightarrow> aircraft \<Rightarrow> aircraft \<Rightarrow> string \<Rightarrow> string \<Rightarrow> error + (action \<times> change list \<times> aircraft)" where
  "reconcile dry existing newData dateStr now =
     (let changes = detectChanges existing newData dateStr in
      if changes \<noteq> [] then
        (if \<not> dry then
           (case mergeAircraft existing newData changes dateStr now of
              Inl e \<Rightarrow> Inl e
            | Inr merged \<Rightarrow> Inr (UPDATE, changes, merged))
         else Inr (UPDATE, changes, existing))
      else
        (if \<not> dry then
           (case tracking existing of
              None \<Rightarrow> Inl (TypeError ''Cannot set properties of undefined'')
            | Some tr \<Rightarrow>
                Inr (SEEN, changes,
                  existing\<lparr>tracking := Some (tr\<lparr>last_seen := Some dateStr,
                    total_flights := Some (next_total_flights (total_flights tr))\<rparr>)\<rparr>))
         else Inr (SEEN, changes, existing)))"

section \<open>The run\<close>

text \<open>
  A JavaScript \<^verbatim>\<open>Map\<close> as the list of its entries in insertion order: \<^verbatim>\<open>set\<close> replaces
  the value of a key the map has, in place, and appends a new key; \<^verbatim>\<open>get\<close> is
  \<^const>\<open>map_of\<close>.
\<close>

fun map_set :: "'k \<Rightarrow> 'v \<Rightarrow> ('k \<times> 'v) list \<Rightarrow> ('k \<times> 'v) list" where
  "map_set k v [] = [(k, v)]"
| "map_set k v ((k', v') # m) = (if k' = k then (k, v) # m else (k', v') # map_set k v m)"

record airline_info =
  airline_iata_code :: string
  airline_name :: string
  airline_country :: string

record catalog =
  schema_version :: string
  airline :: airline_info
  generated_at :: string
  aircraft_count :: int
  aircraft :: "aircraft list"

text \<open>
  The options of a run after \<^verbatim>\<open>main\<close> has parsed and validated its arguments:
  \<open>opt_airline\<close> is the entry of the table \<^verbatim>\<open>AIRLINES\<close> for \<open>airlineCode\<close>, and
  \<open>datesToProcess\<close> the dates computed from the current date, \<^verbatim>\<open>--date\<close> and
  \<^verbatim>\<open>--days\<close>.
\<close>

record options =
  airlineCode :: string
  opt_airline :: airline_info
  dryRun :: bool
  outputChanges :: bool
  bootstrap :: bool
  datesToProcess :: "string list"

text \<open>
  The variables of \<^verbatim>\<open>main\<close> the loop over the dates changes. \<open>aircraftByReg\<close> holds, for
  a registration, the position in \<^verbatim>\<open>catalog.aircraft\<close> of the object the JavaScript map
  refers to: the map and the array share their objects, so a mutation through the map is
  a mutation of that element. \<open>ticks\<close> counts the readings of the clock, whose
  \<open>k\<close>-th reading is \<open>clock k\<close>. The map \<^verbatim>\<open>seenAircraftAll\<close> is read by the stale
  report only, which prints, and is left out.
\<close>

record run_state =
  catalog :: catalog
  aircraftByReg :: "(string \<times> nat) list"
  totalNew :: nat
  totalUpdated :: nat
  totalSeen :: nat
  allChanges :: "(string \<times> change) list"
  ticks :: nat

text \<open>\<^verbatim>\<open>catalog.aircraft.forEach(a => aircraftByReg.set(a.registration, a))\<close>\<close>

fun build_lookup :: "aircraft list \<Rightarrow> nat \<Rightarrow> (string \<times> nat) list \<Rightarrow> (string \<times> nat) list" where
  "build_lookup [] i m = m"
| "build_lookup (a # as) i m = build_lookup as (Suc i) (map_set (registration a) i m)"

text \<open>
  Loading or creating the catalog: \<open>stored\<close> is the parsed catalog file when it exists.
\<close>

definition initial_state :: "options \<Rightarrow> (nat \<Rightarrow> string) \<Rightarrow> catalog option \<Rightarrow> run_state" where
  "initial_state opts clock stored =
     (let fresh = \<lparr>schema_version = ''1.0.0'',
                    airline = \<lparr>airline_iata_code = airlineCode opts,
                                airline_name = airline_name (opt_airline opts),
                                airline_country = airline_country (opt_airline opts)\<rparr>,
                    generated_at = clock 0, aircraft_count = 0, aircraft = []\<rparr>;
          (cat, t) = (case stored of
                        Some c \<Rightarrow> if \<not> bootstrap opts then (c, 0) else (fresh, 1)
                      | None \<Rightarrow> (fresh, 1))
      in \<lparr>catalog = cat, aircraftByReg = build_lookup (aircraft cat) 0 [],
          totalNew = 0, totalUpdated = 0, totalSeen = 0, allChanges = [], ticks = t\<rparr>)"

text \<open>The loop that fills \<^verbatim>\<open>seenToday\<close> from the flights of one date.\<close>

fun collect_seen ::
  "string \<Rightarrow> flight list \<Rightarrow> (string \<times> observation) list \<Rightarrow> (string \<times> observation) list" where
  "collect_seen ac [] seenToday = seenToday"
| "collect_seen ac (fl # fls) seenToday =
     collect_seen ac fls
       (case extractAircraftFromFlight fl ac of
          None \<Rightarrow> seenToday
        | Some extracted \<Rightarrow>
            if obs_registration extracted \<noteq> []
            then map_set (obs_registration extracted) extracted seenToday
            else seenToday)"

text \<open>
  The body of \<^verbatim>\<open>for (const [reg, rawData] of seenToday)\<close>. A position of the lookup
  that is outside the array stands for no object; \<open>lookup_ok\<close> below shows there is none.
\<close>

definition process_aircraft ::
  "options \<Rightarrow> (nat \<Rightarrow> string) \<Rightarrow> string \<Rightarrow> run_state \<Rightarrow> string \<times> observation \<Rightarrow> error + run_state" where
  "process_aircraft opts clock dateStr st entry =
     (let reg = fst entry; rawData = snd entry;
          newData = transformToSchema rawData dateStr (clock (ticks st)) (clock (ticks st + 1));
          st1 = st\<lparr>ticks := ticks st + 2\<rparr>;
          acs = aircraft (catalog st1)
      in case map_of (aircraftByReg st1) reg of
           None \<Rightarrow>
             (let st2 = st1\<lparr>totalNew := totalNew st1 + 1\<rparr>
              in if \<not> dryRun opts
                 then Inr (st2\<lparr>catalog := (catalog st2)\<lparr>aircraft := acs @ [newData]\<rparr>,
                               aircraftByReg := map_set reg (length acs) (aircraftByReg st2)\<rparr>)
                 else Inr st2)
         | Some i \<Rightarrow>
             if \<not> i < length acs then Inl (TypeError ''no such object'')
             else
               (case reconcile (dryRun opts) (acs ! i) newData dateStr (clock (ticks st1)) of
                  Inl e \<Rightarrow> Inl e
                | Inr (act, changes, rec') \<Rightarrow>
                    (let st2 = (if act = UPDATE
                                then st1\<lparr>totalUpdated := totalUpdated st1 + 1,
                                         allChanges := allChanges st1 @ map (Pair reg) changes,
                                         ticks := (if dryRun opts then ticks st1
                                                   else ticks st1 + 1)\<rparr>
                                else st1\<lparr>totalSeen := totalSeen st1 + 1\<rparr>)
                     in Inr (st2\<lparr>catalog := (catalog st2)\<lparr>aircraft := acs[i := rec']\<rparr>\<rparr>))))"

fun process_all ::
  "options \<Rightarrow> (nat \<Rightarrow> string) \<Rightarrow> string \<Rightarrow> run_state \<Rightarrow> (string \<times> observation) list
   \<Rightarrow> error + run_state" where
  "process_all opts clock dateStr st [] = Inr st"
| "process_all opts clock dateStr st (entry # entries) =
     (case process_aircraft opts clock dateStr st entry of
        Inl e \<Rightarrow> Inl e
      | Inr st' \<Rightarrow> process_all opts clock dateStr st' entries)"

text \<open>One date of the loop once its flights are fetched.\<close>

definition process_date ::
  "options \<Rightarrow> (nat \<Rightarrow> string) \<Rightarrow> string \<Rightarrow> flight list \<Rightarrow> run_state \<Rightarrow> error + run_state" where
  "process_date opts clock dateStr flights st =
     process_all opts clock dateStr st (collect_seen (airlineCode opts) flights [])"

text \<open>\<^verbatim>\<open>for (const dateStr of datesToProcess)\<close>\<close>

fun process_dates ::
  "options \<Rightarrow> server \<Rightarrow> (nat \<Rightarrow> string) \<Rightarrow> string list \<Rightarrow> client \<times> run_state
   \<Rightarrow> error + client \<times> run_state" where
  "process_dates opts srv clock [] cs = Inr cs"
| "process_dates opts srv clock (dateStr # ds) cs =
     (case fetchFlightsForDate srv (fst cs) dateStr (airlineCode opts) of
        (Inl e, c') \<Rightarrow> Inl e
      | (Inr flights, c') \<Rightarrow>
          (case process_date opts clock dateStr flights (snd cs) of
             Inl e \<Rightarrow> Inl e
           | Inr st' \<Rightarrow> process_dates opts srv clock ds (c', st')))"

section \<open>Export and save\<close>

text \<open>
  \<^verbatim>\<open>String.prototype.localeCompare\<close> belongs to the platform; it is the parameter \<open>lc\<close>,
  whose result is negative, zero or positive. The comparator of the sort treats an absent
  or empty \<open>iata_code\<close> as the empty string.
\<close>

definition compareAircraft :: "(string \<Rightarrow> string \<Rightarrow> int) \<Rightarrow> aircraft \<Rightarrow> aircraft \<Rightarrow> int" where
  "compareAircraft lc a b =
     (let typeCompare = lc (or_empty (opt_chain (aircraft_type a) iata_code))
                           (or_empty (opt_chain (aircraft_type b) iata_code))
      in if typeCompare \<noteq> 0 then typeCompare else lc (registration a) (registration b))"

text \<open>
  \<^verbatim>\<open>Array.prototype.sort\<close> is stable, and for a consistent comparator a list has one stable
  sorted arrangement; the model computes it by insertion, an element going before the
  first one it does not compare greater than.
\<close>

fun insert_by :: "('a \<Rightarrow> 'a \<Rightarrow> int) \<Rightarrow> 'a \<Rightarrow> 'a list \<Rightarrow> 'a list" where
  "insert_by cmp x [] = [x]"
| "insert_by cmp x (y # ys) = (if cmp x y \<le> 0 then x # y # ys else y # insert_by cmp x ys)"

definition js_sort :: "('a \<Rightarrow> 'a \<Rightarrow> int) \<Rightarrow> 'a list \<Rightarrow> 'a list" where
  "js_sort cmp xs = foldr (insert_by cmp) xs []"

record changes_export =
  export_generated_at :: string
  export_airline :: string
  export_changes :: "(string \<times> change) list"

text \<open>
  What a run that reaches its end leaves: the variables as they are when the loop over the
  dates has ended, and the two files, each \<open>None\<close> when \<^verbatim>\<open>fs.writeFileSync\<close> is not
  called for it. The export is written before the catalog, and each reads the clock once.
  The summary, the stale report and the WiFi statistics only print.
\<close>

record outcome =
  final_state :: run_state
  final_client :: client
  changes_file :: "changes_export option"
  catalog_file :: "catalog option"

definition finish ::
  "options \<Rightarrow> (string \<Rightarrow> string \<Rightarrow> int) \<Rightarrow> (nat \<Rightarrow> string) \<Rightarrow> client \<times> run_state \<Rightarrow> outcome" where
  "finish opts lc clock cs =
     (let st = snd cs;
          export = (if outputChanges opts \<and> length (allChanges st) > 0
                    then Some \<lparr>export_generated_at = clock (ticks st),
                               export_airline = airlineCode opts,
                               export_changes = allChanges st\<rparr>
                    else None);
          t1 = (if export = None then ticks st else ticks st + 1);
          saved = (if \<not> dryRun opts
                      \<and> (totalNew st > 0 \<or> totalUpdated st > 0 \<or> totalSeen st > 0)
                   then Some ((catalog st)\<lparr>generated_at := clock t1,
                          aircraft_count := int (length (aircraft (catalog st))),
                          aircraft := js_sort (compareAircraft lc) (aircraft (catalog st))\<rparr>)
                   else None)
      in \<lparr>final_state = st, final_client = fst cs, changes_file = export,
          catalog_file = saved\<rparr>)"

text \<open>
  \<^verbatim>\<open>main\<close> from the loading of the catalog on. \<open>Inl\<close> is an error that reaches
  \<^verbatim>\<open>main().catch\<close>, which exits without writing a file.
\<close>

definition main ::
  "options \<Rightarrow> server \<Rightarrow> (string \<Rightarrow> string \<Rightarrow> int) \<Rightarrow> (nat \<Rightarrow> string) \<Rightarrow> client \<Rightarrow> catalog option
   \<Rightarrow> error + outcome" where
  "main opts srv lc clock client0 stored =
     (case process_dates opts srv clock (datesToProcess opts)
             (client0, initial_state opts clock stored) of
        Inl e \<Rightarrow> Inl e
      | Inr cs \<Rightarrow> Inr (finish opts lc clock cs))"

section \<open>Example inputs\<close>

text \<open>An observation of an Air France A350 with the two WiFi flags left open.\<close>

definition example_observation :: "jsval \<Rightarrow> jsval \<Rightarrow> observation" where
  "example_observation we hs =
     \<lparr>obs_registration = ''F-HTYA'', typeCode = JStr ''359'',
      typeName = JStr ''AIRBUS A350-900'', subFleetCode = JStr ''AA'',
      ownerAirlineCode = JStr ''AF'', ownerAirlineName = JStr ''Air France'',
      cabinCrewEmployer = JStr ''AF'', cockpitCrewEmployer = JStr ''AF'',
      wifiEnabled = we, highSpeedWifi = hs, satelliteConnectivity = JStr ''Y'',
      physicalPaxConfiguration = JStr ''J034W024Y266''\<rparr>"

text \<open>
  A record of the catalog: the A350 as an earlier run created it on 2026-02-04, with
  low-speed WiFi.
\<close>

definition example_aircraft :: aircraft where
  "example_aircraft =
     transformToSchema (example_observation (JStr ''Y'') JNull) ''2026-02-04''
       ''2026-02-04T06:00:00.000Z'' ''2026-02-04T06:00:00.001Z''"

text \<open>
  The same aircraft observed on 2026-02-10 with high-speed WiFi, transformed, and the
  changes against the record of the catalog.
\<close>

definition example_update :: aircraft where
  "example_update =
     transformToSchema (example_observation (JStr ''Y'') (JStr ''Y'')) ''2026-02-10''
       ''2026-02-10T06:00:00.000Z'' ''2026-02-10T06:00:00.001Z''"

definition example_changes :: "change list" where
  "example_changes = detectChanges example_aircraft example_update ''2026-02-10''"

text \<open>
  A client with three keys before its first request; a server that answers every request
  with 429; and a server that answers every request with an empty page and reports a
  thousand pages.
\<close>

definition example_client :: client where
  "example_client = \<lparr>apiKeys = [''key-a'', ''key-b'', ''key-c''], currentKeyIndex = 0,
     totalRequests = 0, sent = []\<rparr>"

definition limited_server :: server where
  "limited_server n rq = \<lparr>resp_status = 429, resp_statusText = ''Too Many Requests'',
     resp_body = \<lparr>operationalFlights = None, totalPages = None\<rparr>\<rparr>"

definition endless_server :: server where
  "endless_server n rq = \<lparr>resp_status = 200, resp_statusText = ''OK'',
     resp_body = \<lparr>operationalFlights = Some [], totalPages = Some 1000\<rparr>\<rparr>"

text \<open>
  A comparison of strings by their code units, standing for \<^verbatim>\<open>localeCompare\<close> in the
  examples.
\<close>

definition compare_code_units :: "string \<Rightarrow> string \<Rightarrow> int" where
  "compare_code_units a b = (if a < b then - 1 else if a = b then 0 else 1)"

text \<open>
  A run for Air France on 2026-02-10. The catalog holds the A350 and a record without a
  type code, F-HZZZ. The API answers with one page of three flights: the A350, now with
  high-speed WiFi, an A220 the catalog does not have, F-HZUA, and the A350 again. By type
  code the three aircraft come in the order F-HZZZ, F-HZUA, F-HTYA, the reverse of their
  order by registration.
\<close>

definition example_untyped :: aircraft where
  "example_untyped =
     transformToSchema
       ((example_observation (JStr ''Y'') JNull)
          \<lparr>obs_registration := ''F-HZZZ'', typeCode := JNull\<rparr>)
       ''2026-02-04'' ''2026-02-04T06:00:00.000Z'' ''2026-02-04T06:00:00.001Z''"

definition example_flight :: "string \<Rightarrow> string \<Rightarrow> string \<Rightarrow> jsval \<Rightarrow> flight" where
  "example_flight reg tc tn hs =
     \<lparr>flightLegs = Some [\<lparr>leg_aircraft = Some
        \<lparr>api_registration = JStr reg, api_typeCode = JStr tc,
         api_typeName = JStr tn, api_subFleetCodeId = JStr ''AA'',
         api_ownerAirlineCode = JStr ''AF'', api_ownerAirlineName = JStr ''Air France'',
         api_cabinCrewEmployer = JStr ''AF'', api_cockpitCrewEmployer = JStr ''AF'',
         api_wifiEnabled = JStr ''Y'', api_highSpeedWifi = hs,
         api_satelliteConnectivityOnBoard = JStr ''Y'',
         api_physicalPaxConfiguration = JStr ''J034W024Y266''\<rparr>\<rparr>]\<rparr>"

definition example_flights :: "flight list" where
  "example_flights =
     [example_flight ''F-HTYA'' ''359'' ''AIRBUS A350-900'' (JStr ''Y''),
      example_flight ''F-HZUA'' ''223'' ''AIRBUS A220-300'' JUndefined,
      example_flight ''F-HTYA'' ''359'' ''AIRBUS A350-900'' (JStr ''Y'')]"

definition example_server :: server where
  "example_server n rq = \<lparr>resp_status = 200, resp_statusText = ''OK'',
     resp_body = \<lparr>operationalFlights = Some example_flights, totalPages = Some 1\<rparr>\<rparr>"

definition example_catalog :: catalog where
  "example_catalog =
     \<lparr>schema_version = ''1.0.0'',
      airline = \<lparr>airline_iata_code = ''AF'', airline_name = ''Air France'',
                  airline_country = ''France''\<rparr>,
      generated_at = ''2026-02-04T06:00:00.002Z'', aircraft_count = 2,
      aircraft = [example_aircraft, example_untyped]\<rparr>"

text \<open>
  The same catalog with the counter of the A350 at \<open>2^53 + 2\<close>, which is a double.
\<close>

definition saturated_catalog :: catalog where
  "saturated_catalog =
     example_catalog\<lparr>aircraft :=
       [example_aircraft\<lparr>tracking :=
          Some \<lparr>first_seen = ''2026-02-04'', last_seen = Some ''2026-02-04'',
                total_flights = Some 9007199254740994\<rparr>\<rparr>,
        example_untyped]\<rparr>"

definition example_options :: "bool \<Rightarrow> options" where
  "example_options dry =
     \<lparr>airlineCode = ''AF'',
      opt_airline = \<lparr>airline_iata_code = ''AF'', airline_name = ''Air France'',
                      airline_country = ''France''\<rparr>,
      dryRun = dry, outputChanges = True, bootstrap = False,
      datesToProcess = [''2026-02-10'']\<rparr>"

definition example_clock :: "nat \<Rightarrow> string" where
  "example_clock n = ''2026-02-10T06:00:00.000Z''"

section \<open>Notions the properties are stated with\<close>

text \<open>
  A token of a cabin configuration: a character that is not a digit, followed by two or
  three digits. The effect one token has on the seat counts, by the table \<open>mapping\<close>.
\<close>

definition valid_token :: "string \<Rightarrow> bool" where
  "valid_token t =
     (case t of
        [] \<Rightarrow> False
      | c # ds \<Rightarrow> \<not> is_digit c \<and> (length ds = 2 \<or> length ds = 3) \<and> list_all is_digit ds)"

definition apply_token :: "string \<Rightarrow> cabin_classes \<Rightarrow> cabin_classes" where
  "apply_token t cls =
     (case mapping (hd t) of Some k \<Rightarrow> add_seats k (parseInt10 (tl t)) cls | None \<Rightarrow> cls)"

text \<open>The regular expression of \<^verbatim>\<open>parseCabinConfig\<close> matches somewhere in the string.\<close>

fun has_match :: "string \<Rightarrow> bool" where
  "has_match [] = False"
| "has_match (c # cs) = (match_token (c # cs) \<noteq> None \<or> has_match cs)"

text \<open>
  Two change entries have the same uniqueness key: timestamp, property, old and new value.
\<close>

definition same_key :: "change \<Rightarrow> change \<Rightarrow> bool" where
  "same_key h c =
     (timestamp h = timestamp c \<and> property h = property c \<and> old_value h = old_value c
      \<and> new_value h = new_value c)"

text \<open>
  A counter is below \<open>2^53\<close> in absolute value, where adding 1 to a double is exact.
\<close>

definition safe_count :: "int \<Rightarrow> bool" where
  "safe_count n = (\<bar>n\<bar> < 9007199254740992)"

text \<open>\<^verbatim>\<open>total_flights\<close> read as a number, an absent counter counting as zero.\<close>

definition flights_count :: "int option \<Rightarrow> int" where
  "flights_count tf = (case tf of None \<Rightarrow> 0 | Some n \<Rightarrow> n)"

text \<open>
  The position in \<^verbatim>\<open>CONFIG.apiKeys\<close> of the key the first attempt of a call of
  \<^verbatim>\<open>apiRequest\<close> with \<open>retryCount = r\<close> sends, and the request its \<open>j\<close>-th attempt
  after that sends when every attempt is followed by a rotation.
\<close>

definition first_index :: "client \<Rightarrow> nat \<Rightarrow> nat" where
  "first_index c r =
     (if length (apiKeys c) > 1 \<and> r = 0 then (currentKeyIndex c + 1) mod length (apiKeys c)
      else currentKeyIndex c)"

definition attempt :: "client \<Rightarrow> nat \<Rightarrow> string \<Rightarrow> string \<Rightarrow> nat \<Rightarrow> nat \<Rightarrow> request" where
  "attempt c r d a p j =
     \<lparr>req_key = JStr (apiKeys c ! ((first_index c r + j) mod length (apiKeys c))),
      req_date = d, req_airline = a, req_page = p\<rparr>"

text \<open>
  A comparison function is consistent, as \<^verbatim>\<open>Array.prototype.sort\<close> requires of its
  comparator: the sign of the result flips with the arguments, and not-greater is
  transitive.
\<close>

definition consistent :: "('a \<Rightarrow> 'a \<Rightarrow> int) \<Rightarrow> bool" where
  "consistent cmp =
     ((\<forall>a b. (cmp a b < 0) = (0 < cmp b a))
      \<and> (\<forall>a b c. cmp a b \<le> 0 \<and> cmp b c \<le> 0 \<longrightarrow> cmp a c \<le> 0))"

text \<open>
  The order of the saved catalog: by IATA type code, then by registration. The type code
  of a record is the string in \<open>aircraft_type.iata_code\<close>, and the empty string when the
  record has no \<open>aircraft_type\<close> or its \<open>iata_code\<close> is \<^verbatim>\<open>null\<close> or absent.
\<close>

definition type_key :: "aircraft \<Rightarrow> string" where
  "type_key a =
     (case aircraft_type a of
        None \<Rightarrow> []
      | Some ty \<Rightarrow> (case iata_code ty of JStr code \<Rightarrow> code | JNull \<Rightarrow> [] | JUndefined \<Rightarrow> []))"

definition catalog_order :: "(string \<Rightarrow> string \<Rightarrow> int) \<Rightarrow> aircraft \<Rightarrow> aircraft \<Rightarrow> bool" where
  "catalog_order lc a b =
     (lc (type_key a) (type_key b) < 0
      \<or> (lc (type_key a) (type_key b) = 0 \<and> lc (registration a) (registration b) \<le> 0))"

text \<open>
  The lookup refers to objects of the array only, each under its own registration.
\<close>

definition lookup_ok :: "run_state \<Rightarrow> bool" where
  "lookup_ok st =
     list_all (\<lambda>(reg, i). i < length (aircraft (catalog st))
                 \<and> registration (aircraft (catalog st) ! i) = reg)
       (aircraftByReg st)"

text \<open>
  \<^verbatim>\<open>tracking.total_flights\<close> of the record the lookup has for a registration, zero when
  there is no record or no counter.
\<close>

definition record_flights :: "aircraft \<Rightarrow> int" where
  "record_flights a =
     (case tracking a of None \<Rightarrow> 0 | Some t \<Rightarrow> flights_count (total_flights t))"

definition flights_of :: "run_state \<Rightarrow> string \<Rightarrow> int" where
  "flights_of st reg =
     (case map_of (aircraftByReg st) reg of
        None \<Rightarrow> 0
      | Some i \<Rightarrow> record_flights (aircraft (catalog st) ! i))"

section \<open>Properties\<close>

subsection \<open>Connectivity classification\<close>

text \<open>
  C1, as the code has it. An observation whose wifi-enabled flag is not \<open>Y\<close> is given
  \<open>wifi = none\<close>; with both flags \<open>Y\<close> it is given \<open>high-speed\<close> and the provider
  Starlink; with wifi enabled and the high-speed flag not \<open>Y\<close> it is given \<open>low-speed\<close>
  and no provider. The provider follows the high-speed flag alone: when wifi is not
  enabled it is absent only if the high-speed flag is not \<open>Y\<close>, and Starlink otherwise.
\<close>

theorem transformToSchema_connectivity:
  "(wifiEnabled raw \<noteq> JStr ''Y'' \<longrightarrow>
      map_option wifi (connectivity (transformToSchema raw d n1 n2)) = Some (JStr ''none'')
      \<and> map_option wifi_provider (connectivity (transformToSchema raw d n1 n2))
          = Some (if highSpeedWifi raw = JStr ''Y'' then JStr ''Starlink'' else JNull))
   \<and> (wifiEnabled raw = JStr ''Y'' \<and> highSpeedWifi raw = JStr ''Y'' \<longrightarrow>
      map_option wifi (connectivity (transformToSchema raw d n1 n2)) = Some (JStr ''high-speed'')
      \<and> map_option wifi_provider (connectivity (transformToSchema raw d n1 n2))
          = Some (JStr ''Starlink''))
   \<and> (wifiEnabled raw = JStr ''Y'' \<and> highSpeedWifi raw \<noteq> JStr ''Y'' \<longrightarrow>
      map_option wifi (connectivity (transformToSchema raw d n1 n2)) = Some (JStr ''low-speed'')
      \<and> map_option wifi_provider (connectivity (transformToSchema raw d n1 n2)) = Some JNull)"
  by (simp add: transformToSchema_def convertWifi_def Let_def)

text \<open>The three cases at an observation each: wifi off, both flags on, wifi on alone.\<close>

theorem transformToSchema_connectivity_witness:
  "(wifiEnabled (example_observation (JStr ''N'') JNull) \<noteq> JStr ''Y''
    \<and> map_option wifi (connectivity (transformToSchema (example_observation (JStr ''N'') JNull)
         ''2026-02-04'' ''t1'' ''t2'')) = Some (JStr ''none'')
    \<and> map_option wifi_provider (connectivity (transformToSchema
         (example_observation (JStr ''N'') JNull) ''2026-02-04'' ''t1'' ''t2'')) = Some JNull)
   \<and> (wifiEnabled (example_observation (JStr ''Y'') (JStr ''Y'')) = JStr ''Y''
    \<and> highSpeedWifi (example_observation (JStr ''Y'') (JStr ''Y'')) = JStr ''Y''
    \<and> map_option wifi_provider (connectivity (transformToSchema
         (example_observation (JStr ''Y'') (JStr ''Y'')) ''2026-02-04'' ''t1'' ''t2''))
       = Some (JStr ''Starlink''))
   \<and> (wifiEnabled (example_observation (JStr ''Y'') JNull) = JStr ''Y''
    \<and> highSpeedWifi (example_observation (JStr ''Y'') JNull) \<noteq> JStr ''Y''
    \<and> map_option wifi (connectivity (transformToSchema (example_observation (JStr ''Y'') JNull)
         ''2026-02-04'' ''t1'' ''t2'')) = Some (JStr ''low-speed''))"
  using transformToSchema_connectivity
      [of "example_observation (JStr ''N'') JNull" "''2026-02-04''" "''t1''" "''t2''"]
    transformToSchema_connectivity
      [of "example_observation (JStr ''Y'') (JStr ''Y'')" "''2026-02-04''" "''t1''" "''t2''"]
    transformToSchema_connectivity
      [of "example_observation (JStr ''Y'') JNull" "''2026-02-04''" "''t1''" "''t2''"]
  by (simp add: example_observation_def)

text \<open>
  C1 as stated fails: with the wifi-enabled flag \<open>N\<close> and the high-speed flag \<open>Y\<close> the
  record has \<open>wifi = none\<close> and the provider Starlink, not an absent provider.
\<close>

theorem wifi_provider_counterexample:
  "wifiEnabled (example_observation (JStr ''N'') (JStr ''Y'')) \<noteq> JStr ''Y''
   \<and> map_option wifi (connectivity (transformToSchema (example_observation (JStr ''N'') (JStr ''Y''))
        ''2026-02-04'' ''t1'' ''t2'')) = Some (JStr ''none'')
   \<and> map_option wifi_provider (connectivity (transformToSchema
        (example_observation (JStr ''N'') (JStr ''Y'')) ''2026-02-04'' ''t1'' ''t2''))
      = Some (JStr ''Starlink'')"
  by (simp add: example_observation_def transformToSchema_def convertWifi_def Let_def)

subsection \<open>Cabin parsing\<close>

lemma parseCabinConfig_JStr: "parseCabinConfig (JStr s) = scan_config s no_seats"
  by (cases s) (simp_all add: parseCabinConfig_def)

lemma scan_config_no_match: "\<not> has_match s \<Longrightarrow> scan_config s cls = cls"
  by (induction s) (auto split: option.splits)

lemma match_token_other: "c \<notin> set ''PFJCWSYM'' \<Longrightarrow> match_token (c # cs) = None"
proof (cases cs)
  case Nil
  then show ?thesis by simp
next
  case (Cons d1 cs1)
  assume "c \<notin> set ''PFJCWSYM''"
  with Cons show ?thesis by (cases cs1) simp_all
qed

lemma digit_not_letter: "is_digit c \<Longrightarrow> c \<notin> set ''PFJCWSYM''"
  by (auto simp: is_digit_def)

lemma match_token_digit: "is_digit c \<Longrightarrow> match_token (c # cs) = None"
  by (rule match_token_other) (rule digit_not_letter)

lemma mapping_None: "c \<notin> set ''PFJCWSYM'' \<Longrightarrow> mapping c = None"
  by (auto simp: mapping_def)

lemma scan_config_digits:
  "list_all is_digit ds \<Longrightarrow> scan_config (ds @ rest) cls = scan_config rest cls"
  by (induction ds) (simp_all add: match_token_digit)

lemma scan_config_token:
  assumes "valid_token t" and "rest = [] \<or> \<not> is_digit (hd rest)"
  shows "scan_config (t @ rest) cls = scan_config rest (apply_token t cls)"
proof -
  from assms(1) obtain c ds where t: "t = c # ds" and c: "\<not> is_digit c"
    and len: "length ds = 2 \<or> length ds = 3" and ds: "list_all is_digit ds"
    by (auto simp: valid_token_def split: list.splits)
  show ?thesis
  proof (cases "c \<in> set ''PFJCWSYM''")
    case False
    then have "match_token (c # ds @ rest) = None"
      by (rule match_token_other)
    then have "scan_config (t @ rest) cls = scan_config (ds @ rest) cls"
      by (simp add: t)
    also have "\<dots> = scan_config rest cls" using ds by (rule scan_config_digits)
    finally show ?thesis using False by (simp add: apply_token_def t mapping_None)
  next
    case True
    from len ds obtain d1 d2 where "ds = [d1, d2] \<or> (\<exists>d3. ds = [d1, d2, d3])"
      by (cases ds; cases "tl ds"; cases "tl (tl ds)"; cases "tl (tl (tl ds))") auto
    then have m: "match_token (c # ds @ rest) = Some (c, ds)"
      using True ds assms(2) by (cases rest) auto
    show ?thesis
      using m by (simp add: t apply_token_def split: option.splits)
  qed
qed

lemma concat_tokens_head:
  "list_all valid_token ts \<Longrightarrow> concat ts = [] \<or> \<not> is_digit (hd (concat ts))"
  by (cases ts) (auto simp: valid_token_def split: list.splits)

lemma scan_config_tokens:
  "list_all valid_token ts \<Longrightarrow> scan_config (concat ts) cls = fold apply_token ts cls"
proof (induction ts arbitrary: cls)
  case Nil
  then show ?case by simp
next
  case (Cons t ts)
  then have "scan_config (t @ concat ts) cls = scan_config (concat ts) (apply_token t cls)"
    by (intro scan_config_token concat_tokens_head) simp_all
  with Cons show ?case by simp
qed

lemma add_seats_commute:
  "add_seats k n (add_seats k' n' cls) = add_seats k' n' (add_seats k n cls)"
  by (cases k; cases k') simp_all

lemma apply_token_commute: "apply_token t \<circ> apply_token u = apply_token u \<circ> apply_token t"
proof
  fix cls
  show "(apply_token t \<circ> apply_token u) cls = (apply_token u \<circ> apply_token t) cls"
    by (cases "mapping (hd t)"; cases "mapping (hd u)")
       (simp_all add: apply_token_def add_seats_commute [of _ "parseInt10 (tl t)"])
qed

lemma fold_apply_token_perm:
  "mset ts = mset ts' \<Longrightarrow> fold apply_token ts = fold apply_token ts'"
  by (rule fold_multiset_equiv) (rule apply_token_commute, assumption)

text \<open>
  C6. \<^verbatim>\<open>parseCabinConfig\<close> is a total function (its scan terminates on every string, and
  an absent or empty configuration is answered without scanning). The configuration
  \<open>J034W024Y266\<close> parses to 34 business, 24 premium economy, 266 economy and no first
  class seats, 324 in total. A configuration that is absent, empty or in which the regular
  expression matches nowhere parses to four zeros, for which \<open>total_seats\<close> is absent.
  Two configurations that are made of the same tokens, each a non-digit followed by two or
  three digits, in different orders parse to the same classes. \<^verbatim>\<open>transformToSchema\<close> stores
  these classes and their total in the record.
\<close>

theorem parseCabinConfig_total_order_independent:
  "parseCabinConfig (JStr ''J034W024Y266'')
     = \<lparr>first = 0, business = 34, premium_economy = 24, economy = 266\<rparr>
   \<and> seat_total (parseCabinConfig (JStr ''J034W024Y266'')) = Some 324
   \<and> parseCabinConfig JNull = no_seats \<and> parseCabinConfig JUndefined = no_seats
   \<and> parseCabinConfig (JStr '''') = no_seats
   \<and> seat_total no_seats = None
   \<and> (\<not> has_match s \<longrightarrow> parseCabinConfig (JStr s) = no_seats)
   \<and> (list_all valid_token ts \<and> mset ts = mset ts' \<longrightarrow>
        parseCabinConfig (JStr (concat ts)) = parseCabinConfig (JStr (concat ts')))
   \<and> map_option classes (cabin (transformToSchema raw d n1 n2))
       = Some (parseCabinConfig (physicalPaxConfiguration raw))
   \<and> map_option total_seats (cabin (transformToSchema raw d n1 n2))
       = Some (seat_total (parseCabinConfig (physicalPaxConfiguration raw)))"
proof -
  have ex: "parseCabinConfig (JStr ''J034W024Y266'')
     = \<lparr>first = 0, business = 34, premium_economy = 24, economy = 266\<rparr>"
    by (simp add: parseCabinConfig_def no_seats_def is_digit_def mapping_def parseInt10_def
        digit_val_def)
  have tot: "seat_total (parseCabinConfig (JStr ''J034W024Y266'')) = Some 324"
    by (simp add: ex seat_total_def)
  have perm: "parseCabinConfig (JStr (concat ts)) = parseCabinConfig (JStr (concat ts'))"
    if "list_all valid_token ts" "mset ts = mset ts'"
  proof -
    from that have ts': "list_all valid_token ts'"
      by (metis list_all_iff set_mset_mset)
    have "fold apply_token ts no_seats = fold apply_token ts' no_seats"
      using that(2) by (simp only: fold_apply_token_perm [of ts ts'])
    with that(1) ts' show ?thesis
      by (simp add: parseCabinConfig_JStr scan_config_tokens)
  qed
  have none: "parseCabinConfig (JStr s) = no_seats" if "\<not> has_match s"
    using that by (simp add: parseCabinConfig_JStr scan_config_no_match)
  show ?thesis
    using ex tot perm none
    by (simp add: parseCabinConfig_def seat_total_def no_seats_def transformToSchema_def Let_def)
qed


text \<open>
  The hypotheses at concrete strings: \<open>garbage\<close> has no match, and the three tokens of
  \<open>J034W024Y266\<close> in two orders.
\<close>

theorem parseCabinConfig_total_order_independent_witness:
  "\<not> has_match ''garbage'' \<and> parseCabinConfig (JStr ''garbage'') = no_seats
   \<and> list_all valid_token [''J034'', ''W024'', ''Y266'']
   \<and> mset [''J034'', ''W024'', ''Y266''] = mset [''Y266'', ''J034'', ''W024'']
   \<and> parseCabinConfig (JStr (concat [''J034'', ''W024'', ''Y266'']))
       = parseCabinConfig (JStr (concat [''Y266'', ''J034'', ''W024'']))"
proof -
  have g: "\<not> has_match ''garbage''"
    by simp
  have v: "list_all valid_token [''J034'', ''W024'', ''Y266'']"
    by (simp add: valid_token_def is_digit_def)
  have p: "mset [''J034'', ''W024'', ''Y266''] = mset [''Y266'', ''J034'', ''W024'']"
    by simp
  from g v p show ?thesis
    using parseCabinConfig_total_order_independent
      [where s = "''garbage''" and ts = "[''J034'', ''W024'', ''Y266'']"
         and ts' = "[''Y266'', ''J034'', ''W024'']"
         and raw = "example_observation JNull JNull"
         and d = "''2026-02-04''" and ?n1.0 = "''t1''" and ?n2.0 = "''t2''"]
    by blast
qed

subsection \<open>The counter\<close>

lemma to_double_exact: "\<bar>m\<bar> \<le> 9007199254740992 \<Longrightarrow> to_double m = m"
  by (simp add: to_double_def)

lemma to_double_one: "to_double 1 = 1"
  by (simp add: to_double_def)

lemma next_total_flights_eq: "next_total_flights tf = to_double (flights_count tf + 1)"
  by (simp add: next_total_flights_def flights_count_def split: option.splits)

lemma next_total_flights_safe:
  "safe_count (flights_count tf) \<Longrightarrow> next_total_flights tf = flights_count tf + 1"
  by (simp add: next_total_flights_eq safe_count_def to_double_exact)

text \<open>
  From \<open>2^53\<close> on the addition rounds: at \<open>2^53\<close> the counter stays where it is, and
  at \<open>2^53 + 2\<close> it moves by two.
\<close>

lemma next_total_flights_rounds:
  "next_total_flights (Some 9007199254740992) = 9007199254740992"
  "next_total_flights (Some 9007199254740994) = 9007199254740996"
  by code_simp+

subsection \<open>Reconciliation\<close>

lemma tracked_change_nil: "tracked_change d p old new = [] \<longleftrightarrow> old = new"
  by (simp add: tracked_change_def)

lemma detectChanges_nil:
  "detectChanges existing newData d = [] \<longleftrightarrow>
     opt_chain (connectivity existing) wifi = opt_chain (connectivity newData) wifi
     \<and> opt_chain (connectivity existing) wifi_provider
         = opt_chain (connectivity newData) wifi_provider
     \<and> opt_chain (cabin existing) physical_configuration
         = opt_chain (cabin newData) physical_configuration
     \<and> opt_chain (operator existing) sub_fleet_code
         = opt_chain (operator newData) sub_fleet_code"
  by (simp add: detectChanges_def tracked_change_nil)

lemma push_new_filter:
  "push_new K hist chs = hist @ filter (\<lambda>c. change_key c \<notin> K) chs"
  by (induction chs arbitrary: hist) simp_all

lemma mergeAircraft_history:
  "mergeAircraft existing newData chs d now = Inr r \<Longrightarrow>
   history r = history existing
     @ filter (\<lambda>c. change_key c \<notin> set (map change_key (history existing))) chs"
  by (auto simp: mergeAircraft_def push_new_filter split: option.splits)

lemma mergeAircraft_tracked:
  "mergeAircraft existing newData chs d now = Inr r \<Longrightarrow>
   connectivity r = connectivity newData \<and> operator r = operator newData
   \<and> opt_chain (cabin r) physical_configuration
       = opt_chain (cabin newData) physical_configuration"
  by (auto simp: mergeAircraft_def opt_chain_def split: option.splits)

lemma same_key_change_key: "same_key h c \<Longrightarrow> change_key h = change_key c"
  by (simp add: same_key_def change_key_def)

lemma filter_keys_again:
  "filter (\<lambda>c. change_key c \<notin> set (map change_key
       (hist @ filter (\<lambda>c. change_key c \<notin> K) chs))) chs = []"
  if "K = set (map change_key hist)"
  unfolding that by (auto simp: filter_empty_conv)

lemma mergeAircraft_twice:
  assumes "mergeAircraft existing newData chs d now = Inr r1"
    and "mergeAircraft r1 newData' chs d' now' = Inr r2"
  shows "history r2 = history r1"
proof -
  have h1: "history r1 = history existing
     @ filter (\<lambda>c. change_key c \<notin> set (map change_key (history existing))) chs"
    using assms(1) by (rule mergeAircraft_history)
  have "history r2 = history r1
     @ filter (\<lambda>c. change_key c \<notin> set (map change_key (history r1))) chs"
    using assms(2) by (rule mergeAircraft_history)
  also have "filter (\<lambda>c. change_key c \<notin> set (map change_key (history r1))) chs = []"
    unfolding h1 by (rule filter_keys_again) simp
  finally show ?thesis by simp
qed

lemma reconcile_cases:
  assumes "reconcile False existing newData d now = Inr (act, chs, r)"
  shows "chs = detectChanges existing newData d"
    and "chs \<noteq> [] \<Longrightarrow> act = UPDATE \<and> mergeAircraft existing newData chs d now = Inr r"
    and "chs = [] \<Longrightarrow> act = SEEN \<and> (\<exists>tr. tracking existing = Some tr \<and>
           r = existing\<lparr>tracking := Some (tr\<lparr>last_seen := Some d,
                 total_flights := Some (next_total_flights (total_flights tr))\<rparr>)\<rparr>)"
  using assms by (auto simp: reconcile_def Let_def split: if_splits sum.splits option.splits)

lemma reconcile_twice:
  assumes "reconcile False existing newData d now = Inr (a1, ch1, r1)"
    and "reconcile False r1 newData d now' = Inr (a2, ch2, r2)"
  shows "ch2 = [] \<and> a2 = SEEN \<and> history r2 = history r1"
proof -
  have "detectChanges r1 newData d = []"
  proof (cases "ch1 = []")
    case True
    with reconcile_cases[OF assms(1)] show ?thesis
      by (auto simp: detectChanges_def)
  next
    case False
    with reconcile_cases(2)[OF assms(1)] have "mergeAircraft existing newData ch1 d now = Inr r1"
      by simp
    from mergeAircraft_tracked[OF this] show ?thesis
      by (simp add: detectChanges_nil)
  qed
  with reconcile_cases[OF assms(2)] show ?thesis
    by auto
qed


lemma mergeAircraft_succeeds:
  assumes "cabin existing \<noteq> None" "tracking existing \<noteq> None" "cabin newData \<noteq> None"
  shows "\<exists>r. mergeAircraft existing newData chs d now = Inr r
           \<and> cabin r \<noteq> None \<and> tracking r \<noteq> None"
  using assms by (auto simp: mergeAircraft_def split: option.splits)

lemma reconcile_succeeds:
  assumes "cabin existing \<noteq> None" "tracking existing \<noteq> None" "cabin newData \<noteq> None"
  shows "\<exists>act chs r. reconcile False existing newData d now = Inr (act, chs, r)
           \<and> cabin r \<noteq> None \<and> tracking r \<noteq> None"
proof (cases "detectChanges existing newData d = []")
  case True
  with assms show ?thesis
    by (auto simp: reconcile_def Let_def split: option.splits)
next
  case False
  from mergeAircraft_succeeds[OF assms]
  obtain r where "mergeAircraft existing newData (detectChanges existing newData d) d now = Inr r"
    and "cabin r \<noteq> None" "tracking r \<noteq> None"
    by blast
  with False show ?thesis
    by (simp add: reconcile_def Let_def)
qed

text \<open>
  C2. For a record that has its \<open>cabin\<close> and \<open>tracking\<close> objects, reconciling the same
  transformed observation for the same date a second time succeeds, finds no change and
  leaves the history as the first reconciliation left it; and merging the same list of
  change entries a second time leaves the history unchanged. A change whose uniqueness key
  (timestamp, property, old value, new value) is the key of an entry already in the
  history is not among the entries the merge appends.
\<close>

theorem history_not_duplicated:
  "cabin existing \<noteq> None \<and> tracking existing \<noteq> None \<and> cabin newData \<noteq> None \<longrightarrow>
     (\<exists>a1 ch1 r1 a2 ch2 r2.
        reconcile False existing newData d now = Inr (a1, ch1, r1)
        \<and> reconcile False r1 newData d now' = Inr (a2, ch2, r2)
        \<and> ch2 = [] \<and> history r2 = history r1)
     \<and> (\<exists>r1 r2.
        mergeAircraft existing newData chs d now = Inr r1
        \<and> mergeAircraft r1 newData chs d now' = Inr r2
        \<and> history r2 = history r1
        \<and> (\<forall>c \<in> set chs. list_ex (\<lambda>h. same_key h c) (history existing) \<longrightarrow>
              c \<notin> set (drop (length (history existing)) (history r1))))"
proof
  assume wf: "cabin existing \<noteq> None \<and> tracking existing \<noteq> None \<and> cabin newData \<noteq> None"
  then have e: "cabin existing \<noteq> None" "tracking existing \<noteq> None" and n: "cabin newData \<noteq> None"
    by simp_all
  from reconcile_succeeds[OF e n] obtain a1 ch1 r1
    where s1: "reconcile False existing newData d now = Inr (a1, ch1, r1)"
      and r1: "cabin r1 \<noteq> None" "tracking r1 \<noteq> None"
    by blast
  from reconcile_succeeds[OF r1 n] obtain a2 ch2 r2
    where s2: "reconcile False r1 newData d now' = Inr (a2, ch2, r2)"
    by blast
  from reconcile_twice[OF s1 s2] s1 s2
  have first: "\<exists>a1 ch1 r1 a2 ch2 r2.
        reconcile False existing newData d now = Inr (a1, ch1, r1)
        \<and> reconcile False r1 newData d now' = Inr (a2, ch2, r2)
        \<and> ch2 = [] \<and> history r2 = history r1"
    by blast
  from mergeAircraft_succeeds[OF e n] obtain m1
    where t1: "mergeAircraft existing newData chs d now = Inr m1"
      and m1: "cabin m1 \<noteq> None" "tracking m1 \<noteq> None"
    by blast
  from mergeAircraft_succeeds[OF m1 n] obtain m2
    where t2: "mergeAircraft m1 newData chs d now' = Inr m2"
    by blast
  have keep: "history m2 = history m1"
    using t1 t2 by (rule mergeAircraft_twice)
  have skip: "c \<notin> set (drop (length (history existing)) (history m1))"
    if "c \<in> set chs" "list_ex (\<lambda>h. same_key h c) (history existing)" for c
  proof -
    from that(2) obtain h where "h \<in> set (history existing)" "change_key h = change_key c"
      by (auto simp: list_ex_iff dest: same_key_change_key)
    then have "change_key c \<in> set (map change_key (history existing))"
      by (metis image_eqI set_map)
    then show ?thesis
      by (simp add: mergeAircraft_history[OF t1])
  qed
  from t1 t2 keep skip have second: "\<exists>r1 r2.
        mergeAircraft existing newData chs d now = Inr r1
        \<and> mergeAircraft r1 newData chs d now' = Inr r2
        \<and> history r2 = history r1
        \<and> (\<forall>c \<in> set chs. list_ex (\<lambda>h. same_key h c) (history existing) \<longrightarrow>
              c \<notin> set (drop (length (history existing)) (history r1)))"
    by blast
  from first second show "(\<exists>a1 ch1 r1 a2 ch2 r2.
        reconcile False existing newData d now = Inr (a1, ch1, r1)
        \<and> reconcile False r1 newData d now' = Inr (a2, ch2, r2)
        \<and> ch2 = [] \<and> history r2 = history r1)
     \<and> (\<exists>r1 r2.
        mergeAircraft existing newData chs d now = Inr r1
        \<and> mergeAircraft r1 newData chs d now' = Inr r2
        \<and> history r2 = history r1
        \<and> (\<forall>c \<in> set chs. list_ex (\<lambda>h. same_key h c) (history existing) \<longrightarrow>
              c \<notin> set (drop (length (history existing)) (history r1))))"
    by (rule conjI)
qed

lemma example_wf:
  "cabin example_aircraft \<noteq> None \<and> tracking example_aircraft \<noteq> None
   \<and> cabin example_update \<noteq> None"
  by (simp add: example_aircraft_def example_update_def transformToSchema_def Let_def)

lemma example_changes_eq: "example_changes =
  [\<lparr>timestamp = ''2026-02-10'', property = ''connectivity.wifi'',
    old_value = JStr ''low-speed'', new_value = JStr ''high-speed'', source = ''airline_api''\<rparr>,
   \<lparr>timestamp = ''2026-02-10'', property = ''connectivity.wifi_provider'',
    old_value = JNull, new_value = JStr ''Starlink'', source = ''airline_api''\<rparr>]"
  by (simp add: example_changes_def example_aircraft_def example_update_def transformToSchema_def
      Let_def detectChanges_def tracked_change_def opt_chain_def example_observation_def
      convertWifi_def)


text \<open>
  The example record with the two changes of 2026-02-10 already in its history: the
  changes are detected again, their keys are present, and neither merge appends them.
\<close>

theorem history_not_duplicated_witness:
  "cabin (example_aircraft\<lparr>history := example_changes\<rparr>) \<noteq> None
   \<and> tracking (example_aircraft\<lparr>history := example_changes\<rparr>) \<noteq> None
   \<and> cabin example_update \<noteq> None
   \<and> example_changes \<noteq> []
   \<and> list_all (\<lambda>c. list_ex (\<lambda>h. same_key h c)
         (history (example_aircraft\<lparr>history := example_changes\<rparr>))) example_changes
   \<and> (\<exists>a1 ch1 r1 a2 ch2 r2.
        reconcile False (example_aircraft\<lparr>history := example_changes\<rparr>) example_update
          ''2026-02-10'' ''t1'' = Inr (a1, ch1, r1)
        \<and> reconcile False r1 example_update ''2026-02-10'' ''t2'' = Inr (a2, ch2, r2)
        \<and> ch2 = [] \<and> history r2 = history r1)
   \<and> (\<exists>r1 r2.
        mergeAircraft (example_aircraft\<lparr>history := example_changes\<rparr>) example_update
          example_changes ''2026-02-10'' ''t1'' = Inr r1
        \<and> mergeAircraft r1 example_update example_changes ''2026-02-10'' ''t2'' = Inr r2
        \<and> history r2 = history r1
        \<and> list_all (\<lambda>c. c \<notin> set (drop (length example_changes) (history r1))) example_changes)"
proof -
  have wf: "cabin (example_aircraft\<lparr>history := example_changes\<rparr>) \<noteq> None
     \<and> tracking (example_aircraft\<lparr>history := example_changes\<rparr>) \<noteq> None
     \<and> cabin example_update \<noteq> None"
    using example_wf by simp
  have ne: "example_changes \<noteq> []"
    by (simp add: example_changes_eq)
  have present: "list_all (\<lambda>c. list_ex (\<lambda>h. same_key h c)
         (history (example_aircraft\<lparr>history := example_changes\<rparr>))) example_changes"
    by (simp add: example_changes_eq same_key_def)
  from wf ne present show ?thesis
    using history_not_duplicated
      [of "example_aircraft\<lparr>history := example_changes\<rparr>" example_update
          "''2026-02-10''" "''t1''" "''t2''" example_changes]
    by (simp add: list_all_iff)
qed

text \<open>
  C3, as the code has it. A reconcile step that is applied (dry-run off) to a record with
  its \<open>cabin\<close> and \<open>tracking\<close> objects is an UPDATE or a SEEN; it keeps \<open>first_seen\<close>
  and \<open>created_at\<close>, keeps the recorded history entries as they are at the front of
  the history, and sets \<open>last_seen\<close> to the observation date, so \<open>last_seen\<close> does not
  decrease when the observation date is not earlier than the recorded one. It replaces
  \<open>total_flights\<close> by the double sum of the counter and 1, which is strictly greater
  while the counter is below \<open>2^53\<close> in absolute value.
\<close>

theorem reconcile_monotone_fields:
  "tracking existing = Some t \<and> cabin existing \<noteq> None \<and> cabin newData \<noteq> None \<longrightarrow>
     (\<exists>act chs r t'.
        reconcile False existing newData d now = Inr (act, chs, r)
        \<and> (act = UPDATE \<or> act = SEEN)
        \<and> tracking r = Some t'
        \<and> first_seen t' = first_seen t
        \<and> created_at (metadata r) = created_at (metadata existing)
        \<and> take (length (history existing)) (history r) = history existing
        \<and> last_seen t' = Some d
        \<and> (\<forall>old. last_seen t = Some old \<and> old \<le> d \<longrightarrow> (\<exists>new. last_seen t' = Some new \<and> old \<le> new))
        \<and> (\<exists>m. total_flights t' = Some m
              \<and> m = to_double (flights_count (total_flights t) + 1)
              \<and> (safe_count (flights_count (total_flights t)) \<longrightarrow>
                    flights_count (total_flights t) < m)))"
proof
  assume wf: "tracking existing = Some t \<and> cabin existing \<noteq> None \<and> cabin newData \<noteq> None"
  have count: "safe_count (flights_count tf)
      \<Longrightarrow> flights_count tf < to_double (flights_count tf + 1)" for tf
    using next_total_flights_safe [of tf] by (simp add: next_total_flights_eq)
  show "\<exists>act chs r t'.
        reconcile False existing newData d now = Inr (act, chs, r)
        \<and> (act = UPDATE \<or> act = SEEN)
        \<and> tracking r = Some t'
        \<and> first_seen t' = first_seen t
        \<and> created_at (metadata r) = created_at (metadata existing)
        \<and> take (length (history existing)) (history r) = history existing
        \<and> last_seen t' = Some d
        \<and> (\<forall>old. last_seen t = Some old \<and> old \<le> d \<longrightarrow> (\<exists>new. last_seen t' = Some new \<and> old \<le> new))
        \<and> (\<exists>m. total_flights t' = Some m
              \<and> m = to_double (flights_count (total_flights t) + 1)
              \<and> (safe_count (flights_count (total_flights t)) \<longrightarrow>
                    flights_count (total_flights t) < m))"
  proof (cases "detectChanges existing newData d = []")
    case True
    with wf count show ?thesis
      by (simp add: reconcile_def Let_def next_total_flights_eq)
  next
    case False
    with wf count show ?thesis
      by (auto simp: reconcile_def Let_def mergeAircraft_def push_new_filter
          next_total_flights_eq)
  qed
qed


lemma example_tracking:
  "tracking example_aircraft
     = Some \<lparr>first_seen = ''2026-02-04'', last_seen = Some ''2026-02-04'', total_flights = Some 1\<rparr>"
  by (simp add: example_aircraft_def transformToSchema_def Let_def)

text \<open>
  The example record, last seen on 2026-02-04, reconciled with the observation of
  2026-02-10.
\<close>

theorem reconcile_monotone_fields_witness:
  "tracking example_aircraft
     = Some \<lparr>first_seen = ''2026-02-04'', last_seen = Some ''2026-02-04'', total_flights = Some 1\<rparr>
   \<and> cabin example_aircraft \<noteq> None \<and> cabin example_update \<noteq> None
   \<and> (''2026-02-04'' :: string) \<le> ''2026-02-10''
   \<and> safe_count (flights_count (Some 1))
   \<and> (\<exists>act chs r t'.
        reconcile False example_aircraft example_update ''2026-02-10'' ''t'' = Inr (act, chs, r)
        \<and> tracking r = Some t'
        \<and> first_seen t' = ''2026-02-04''
        \<and> created_at (metadata r) = created_at (metadata example_aircraft)
        \<and> take (length (history example_aircraft)) (history r) = history example_aircraft
        \<and> last_seen t' = Some ''2026-02-10''
        \<and> (\<exists>m. total_flights t' = Some m \<and> 1 < m))"
proof -
  have le: "(''2026-02-04'' :: string) \<le> ''2026-02-10''"
    by (simp add: less_eq_char_def)
  from example_tracking example_wf le show ?thesis
    using reconcile_monotone_fields
      [of example_aircraft
          "\<lparr>first_seen = ''2026-02-04'', last_seen = Some ''2026-02-04'', total_flights = Some 1\<rparr>"
          example_update "''2026-02-10''" "''t''"]
    by (simp add: flights_count_def safe_count_def) blast
qed

text \<open>
  C3 as stated fails: \<open>last_seen\<close> is assigned the observation date whatever it was.
  Processing 2026-01-15 (the option \<^verbatim>\<open>--date\<close>) for the example record, last seen on
  2026-02-04, is a SEEN that moves \<open>last_seen\<close> back to 2026-01-15.
\<close>

theorem last_seen_decreases_counterexample:
  "reconcile False example_aircraft
     (transformToSchema (example_observation (JStr ''Y'') JNull) ''2026-01-15'' ''t1'' ''t2'')
     ''2026-01-15'' ''t3''
   = Inr (SEEN, [], example_aircraft\<lparr>tracking :=
       Some \<lparr>first_seen = ''2026-02-04'', last_seen = Some ''2026-01-15'',
             total_flights = Some 2\<rparr>\<rparr>)
   \<and> map_option last_seen (tracking example_aircraft) = Some (Some ''2026-02-04'')
   \<and> (''2026-01-15'' :: string) < ''2026-02-04''"
  by (simp add: reconcile_def Let_def detectChanges_def tracked_change_def opt_chain_def
      example_aircraft_def transformToSchema_def next_total_flights_def to_double_def
      less_char_def)

text \<open>
  C7. When the four tracked properties of the existing record and of the transformed
  record are equal, no change is detected and the step is a SEEN (the branch that
  increments \<^verbatim>\<open>totalSeen\<close>) with an empty change list. In a dry run the record stays as it
  is; otherwise the record afterwards is the existing record with \<open>tracking.last_seen\<close>
  set to the date and \<open>tracking.total_flights\<close> incremented, and nothing else changed.
  The incremented counter is the double sum of the counter and 1, which is the counter
  plus one while the counter is below \<open>2^53\<close>.
\<close>

theorem reconcile_identical_seen:
  "opt_chain (connectivity existing) wifi = opt_chain (connectivity newData) wifi
   \<and> opt_chain (connectivity existing) wifi_provider
       = opt_chain (connectivity newData) wifi_provider
   \<and> opt_chain (cabin existing) physical_configuration
       = opt_chain (cabin newData) physical_configuration
   \<and> opt_chain (operator existing) sub_fleet_code
       = opt_chain (operator newData) sub_fleet_code \<longrightarrow>
     detectChanges existing newData d = []
     \<and> reconcile True existing newData d now = Inr (SEEN, [], existing)
     \<and> (tracking existing = Some t \<longrightarrow>
          reconcile False existing newData d now
            = Inr (SEEN, [], existing\<lparr>tracking := Some (t\<lparr>last_seen := Some d,
                total_flights := Some (next_total_flights (total_flights t))\<rparr>)\<rparr>)
          \<and> next_total_flights (total_flights t)
              = to_double (flights_count (total_flights t) + 1)
          \<and> (safe_count (flights_count (total_flights t)) \<longrightarrow>
                next_total_flights (total_flights t) = flights_count (total_flights t) + 1))"
  using next_total_flights_eq [of "total_flights t"] next_total_flights_safe [of "total_flights t"]
  by (auto simp: detectChanges_nil reconcile_def Let_def)

text \<open>
  The example record reconciled with an identical observation six days later.
\<close>

theorem reconcile_identical_seen_witness:
  "opt_chain (connectivity example_aircraft) wifi
     = opt_chain (connectivity (transformToSchema (example_observation (JStr ''Y'') JNull)
         ''2026-02-10'' ''t1'' ''t2'')) wifi
   \<and> opt_chain (connectivity example_aircraft) wifi_provider
     = opt_chain (connectivity (transformToSchema (example_observation (JStr ''Y'') JNull)
         ''2026-02-10'' ''t1'' ''t2'')) wifi_provider
   \<and> opt_chain (cabin example_aircraft) physical_configuration
     = opt_chain (cabin (transformToSchema (example_observation (JStr ''Y'') JNull)
         ''2026-02-10'' ''t1'' ''t2'')) physical_configuration
   \<and> opt_chain (operator example_aircraft) sub_fleet_code
     = opt_chain (operator (transformToSchema (example_observation (JStr ''Y'') JNull)
         ''2026-02-10'' ''t1'' ''t2'')) sub_fleet_code
   \<and> tracking example_aircraft
     = Some \<lparr>first_seen = ''2026-02-04'', last_seen = Some ''2026-02-04'', total_flights = Some 1\<rparr>
   \<and> safe_count (flights_count (Some 1))
   \<and> reconcile False example_aircraft
        (transformToSchema (example_observation (JStr ''Y'') JNull) ''2026-02-10'' ''t1'' ''t2'')
        ''2026-02-10'' ''t3''
      = Inr (SEEN, [], example_aircraft\<lparr>tracking :=
          Some \<lparr>first_seen = ''2026-02-04'', last_seen = Some ''2026-02-10'',
                total_flights = Some 2\<rparr>\<rparr>)"
proof -
  have same: "opt_chain (connectivity example_aircraft) wifi
     = opt_chain (connectivity (transformToSchema (example_observation (JStr ''Y'') JNull)
         ''2026-02-10'' ''t1'' ''t2'')) wifi
   \<and> opt_chain (connectivity example_aircraft) wifi_provider
     = opt_chain (connectivity (transformToSchema (example_observation (JStr ''Y'') JNull)
         ''2026-02-10'' ''t1'' ''t2'')) wifi_provider
   \<and> opt_chain (cabin example_aircraft) physical_configuration
     = opt_chain (cabin (transformToSchema (example_observation (JStr ''Y'') JNull)
         ''2026-02-10'' ''t1'' ''t2'')) physical_configuration
   \<and> opt_chain (operator example_aircraft) sub_fleet_code
     = opt_chain (operator (transformToSchema (example_observation (JStr ''Y'') JNull)
         ''2026-02-10'' ''t1'' ''t2'')) sub_fleet_code"
    by (simp add: example_aircraft_def transformToSchema_def Let_def opt_chain_def)
  from same example_tracking show ?thesis
    using reconcile_identical_seen
      [of example_aircraft
          "transformToSchema (example_observation (JStr ''Y'') JNull) ''2026-02-10'' ''t1'' ''t2''"
          "''2026-02-10''" "''t3''"
          "\<lparr>first_seen = ''2026-02-04'', last_seen = Some ''2026-02-04'', total_flights = Some 1\<rparr>"]
    by (simp add: flights_count_def safe_count_def)
qed

subsection \<open>The API client\<close>

lemma str_includes_prefix: "str_includes (needle @ post) needle"
proof (cases "needle @ post")
  case Nil
  then show ?thesis by simp
next
  case (Cons a list)
  have "take (length needle) (needle @ post) = needle" by simp
  with Cons show ?thesis by simp
qed

lemma str_includes_append: "str_includes (pre @ needle @ post) needle"
  by (induction pre) (simp_all add: str_includes_prefix)

lemma show_nat_429: "show_nat 429 = ''429''" by code_simp
lemma show_nat_403: "show_nat 403 = ''403''" by code_simp

lemma api_error_message:
  "st = 429 \<or> st = 403 \<Longrightarrow>
   str_includes (''API Error: '' @ show_nat st @ '' '' @ txt) ''429''
   \<or> str_includes (''API Error: '' @ show_nat st @ '' '' @ txt) ''403''"
  using str_includes_append [of "''API Error: ''" "''429''" "'' '' @ txt"]
    str_includes_append [of "''API Error: ''" "''403''" "'' '' @ txt"]
  by (auto simp: show_nat_429 show_nat_403)

lemma limited_not_ok: "resp_status r = 429 \<or> resp_status r = 403 \<Longrightarrow> \<not> resp_ok r"
  by (auto simp: resp_ok_def)

lemma apiRequest_unfold:
  assumes "c2 = (if length (apiKeys (c\<lparr>totalRequests := totalRequests c + 1\<rparr>)) > 1 \<and> r = 0
                 then rotateKey (c\<lparr>totalRequests := totalRequests c + 1\<rparr>)
                 else c\<lparr>totalRequests := totalRequests c + 1\<rparr>)"
    and "rq = \<lparr>req_key = getApiKey c2, req_date = d, req_airline = a, req_page = p\<rparr>"
    and "resp = srv (length (sent c2)) rq"
    and "c3 = c2\<lparr>sent := sent c2 @ [rq]\<rparr>"
  shows "apiRequest srv c d a p r =
     (if \<not> resp_ok resp then
        (if (resp_status resp = 429 \<or> resp_status resp = 403)
            \<and> int r < int (length (apiKeys c3)) - 1
         then apiRequest srv (rotateKey c3) d a p (r + 1)
         else (Inl (Error (''API Error: '' @ show_nat (resp_status resp) @ '' ''
                           @ resp_statusText resp)), c3))
      else (Inr (resp_body resp), c3))"
  unfolding assms by (subst apiRequest.simps) (simp only: Let_def)

lemma apiRequest_limited:
  assumes lim: "\<And>n rq. resp_status (srv n rq) = 429 \<or> resp_status (srv n rq) = 403"
  shows "r < length (apiKeys c) \<Longrightarrow> currentKeyIndex c < length (apiKeys c) \<Longrightarrow>
     \<exists>msg c'. apiRequest srv c d a p r = (Inl (Error msg), c')
       \<and> (str_includes msg ''403'' \<or> str_includes msg ''429'')
       \<and> apiKeys c' = apiKeys c \<and> currentKeyIndex c' < length (apiKeys c)
       \<and> totalRequests c' = totalRequests c + (length (apiKeys c) - r)
       \<and> sent c' = sent c @ map (attempt c r d a p) [0..<length (apiKeys c) - r]"
proof (induction k \<equiv> "length (apiKeys c) - r" arbitrary: c r)
  case 0
  then show ?case by simp
next
  case (Suc k)
  let ?N = "length (apiKeys c)"
  define c2 where "c2 = (if length (apiKeys (c\<lparr>totalRequests := totalRequests c + 1\<rparr>)) > 1 \<and> r = 0
                 then rotateKey (c\<lparr>totalRequests := totalRequests c + 1\<rparr>)
                 else c\<lparr>totalRequests := totalRequests c + 1\<rparr>)"
  define rq where "rq = \<lparr>req_key = getApiKey c2, req_date = d, req_airline = a, req_page = p\<rparr>"
  define resp where "resp = srv (length (sent c2)) rq"
  define c3 where "c3 = c2\<lparr>sent := sent c2 @ [rq]\<rparr>"
  note unfold = apiRequest_unfold [where srv = srv, OF c2_def rq_def resp_def c3_def]
  have N: "0 < ?N" using Suc.prems by (cases "apiKeys c") simp_all
  have idx: "currentKeyIndex c2 = first_index c r"
    by (simp add: c2_def first_index_def rotateKey_def)
  have idx_lt: "first_index c r < ?N"
    using Suc.prems N by (simp add: first_index_def)
  have keys2: "apiKeys c2 = apiKeys c" by (simp add: c2_def rotateKey_def)
  have sent2: "sent c2 = sent c" by (simp add: c2_def rotateKey_def)
  have tot2: "totalRequests c2 = totalRequests c + 1" by (simp add: c2_def rotateKey_def)
  have rq: "rq = attempt c r d a p 0"
    using idx idx_lt keys2 by (simp add: rq_def attempt_def getApiKey_def)
  have st: "resp_status resp = 429 \<or> resp_status resp = 403"
    unfolding resp_def by (rule lim)
  then have bad: "\<not> resp_ok resp" by (rule limited_not_ok)
  have keys3: "apiKeys c3 = apiKeys c" using keys2 by (simp add: c3_def)
  show ?case
  proof (cases "int r < int ?N - 1")
    case False
    with Suc.prems have r: "?N - r = 1" by simp
    have "apiRequest srv c d a p r
        = (Inl (Error (''API Error: '' @ show_nat (resp_status resp) @ '' ''
             @ resp_statusText resp)), c3)"
      using False bad keys3 by (simp add: unfold)
    moreover have "str_includes (''API Error: '' @ show_nat (resp_status resp) @ '' ''
             @ resp_statusText resp) ''403''
        \<or> str_includes (''API Error: '' @ show_nat (resp_status resp) @ '' ''
             @ resp_statusText resp) ''429''"
      using api_error_message [OF st] by blast
    moreover have "sent c3 = sent c @ map (attempt c r d a p) [0..<?N - r]"
      using rq sent2 by (simp add: r c3_def)
    moreover have "totalRequests c3 = totalRequests c + (?N - r)"
      using tot2 by (simp add: r c3_def)
    moreover have "currentKeyIndex c3 < ?N" using idx idx_lt by (simp add: c3_def)
    ultimately show ?thesis using keys3 by blast
  next
    case True
    define c4 where "c4 = rotateKey c3"
    have step: "apiRequest srv c d a p r = apiRequest srv c4 d a p (r + 1)"
      using True bad st keys3 by (simp add: unfold c4_def)
    have keys4: "apiKeys c4 = apiKeys c" using keys3 by (simp add: c4_def rotateKey_def)
    have idx4: "currentKeyIndex c4 = (first_index c r + 1) mod ?N"
      using idx keys2 by (simp add: c4_def c3_def rotateKey_def)
    have sent4: "sent c4 = sent c @ [attempt c r d a p 0]"
      using sent2 rq by (simp add: c4_def c3_def rotateKey_def)
    have tot4: "totalRequests c4 = totalRequests c + 1"
      using tot2 by (simp add: c4_def c3_def rotateKey_def)
    have k: "k = length (apiKeys c4) - (r + 1)" using Suc.hyps(2) keys4 by simp
    have r4: "r + 1 < length (apiKeys c4)" using True keys4 by simp
    have i4: "currentKeyIndex c4 < length (apiKeys c4)" using idx4 keys4 N by simp
    from Suc.hyps(1) [OF k r4 i4] obtain msg c'
      where res: "apiRequest srv c4 d a p (r + 1) = (Inl (Error msg), c')"
        and msg: "str_includes msg ''403'' \<or> str_includes msg ''429''"
        and keys': "apiKeys c' = apiKeys c4"
        and idx': "currentKeyIndex c' < length (apiKeys c4)"
        and tot': "totalRequests c' = totalRequests c4 + (length (apiKeys c4) - (r + 1))"
        and sent': "sent c' = sent c4 @ map (attempt c4 (r + 1) d a p)
                       [0..<length (apiKeys c4) - (r + 1)]"
      by blast
    have fi4: "first_index c4 (r + 1) = (first_index c r + 1) mod ?N"
      using idx4 by (simp add: first_index_def)
    have att: "attempt c4 (Suc r) d a p j = attempt c r d a p (Suc j)" for j
      using keys4 fi4 by (simp add: attempt_def mod_add_left_eq)
    have upt: "[0..<?N - r] = 0 # map Suc [0..<?N - (r + 1)]"
      using True by (simp add: upt_conv_Cons map_Suc_upt Suc_diff_Suc)
    have "sent c' = sent c @ map (attempt c r d a p) [0..<?N - r]"
      using sent' sent4 keys4 by (simp add: att upt comp_def)
    moreover have "totalRequests c' = totalRequests c + (?N - r)"
      using tot' tot4 keys4 True by simp
    ultimately show ?thesis
      using step res msg keys' idx' keys4 by auto
  qed
qed


lemma attempts_rotate:
  assumes "currentKeyIndex c < length (apiKeys c)"
  shows "map req_key (map (attempt c 0 d a p) [0..<length (apiKeys c)])
           = map JStr (rotate (Suc (currentKeyIndex c)) (apiKeys c))"
proof -
  let ?N = "length (apiKeys c)"
  have fi: "first_index c 0 = Suc (currentKeyIndex c) mod ?N"
    using assms by (cases "?N = 1") (auto simp: first_index_def)
  have "rotate (Suc (currentKeyIndex c)) (apiKeys c)
          = map (\<lambda>j. apiKeys c ! ((first_index c 0 + j) mod ?N)) [0..<?N]"
    by (rule nth_equalityI) (simp_all del: rotate_Suc add: nth_rotate fi mod_add_left_eq)
  then show ?thesis
    by (simp add: attempt_def comp_def)
qed

lemma fetch_pages_limited:
  assumes lim: "\<And>n rq. resp_status (srv n rq) = 429 \<or> resp_status (srv n rq) = 403"
    and keys: "apiKeys c \<noteq> []" and idx: "currentKeyIndex c < length (apiKeys c)"
  shows "\<exists>msg c'. apiRequest srv c d a p 0 = (Inl (Error msg), c')
       \<and> fetch_pages srv c d a p fl = (Inr fl, c')
       \<and> totalRequests c' = totalRequests c + length (apiKeys c)
       \<and> sent c' = sent c @ map (attempt c 0 d a p) [0..<length (apiKeys c)]"
proof -
  from keys have "0 < length (apiKeys c)" by simp
  from apiRequest_limited [where srv = srv and d = d and a = a and p = p, OF lim this idx]
  obtain msg c'
    where res: "apiRequest srv c d a p 0 = (Inl (Error msg), c')"
      and msg: "str_includes msg ''403'' \<or> str_includes msg ''429''"
      and rest: "totalRequests c' = totalRequests c + length (apiKeys c)"
        "sent c' = sent c @ map (attempt c 0 d a p) [0..<length (apiKeys c)]"
    by auto
  from res msg have "fetch_pages srv c d a p fl = (Inr fl, c')"
    by (subst fetch_pages.simps) auto
  with res rest show ?thesis by blast
qed

text \<open>
  C5, as the code has it. With at least one key configured and every response a 429 or a
  403, one call of \<^verbatim>\<open>apiRequest\<close> sends as many requests as there are keys, the first
  attempt and one retry after each rotation but the last, each configured key once, in
  rotation order from the key after the current one; then it throws its \<^verbatim>\<open>API Error\<close>.
  The loop of \<^verbatim>\<open>fetchFlightsForDate\<close> catches that error, because its message holds the
  status, and returns the flights it has so far: the error ends the pagination of the
  date, not the run.
\<close>

theorem rate_limit_exhausts_keys:
  "(\<forall>n rq. resp_status (srv n rq) = 429 \<or> resp_status (srv n rq) = 403)
   \<and> apiKeys c \<noteq> [] \<and> currentKeyIndex c < length (apiKeys c) \<longrightarrow>
     (\<exists>msg c'.
        apiRequest srv c d a p 0 = (Inl (Error msg), c')
        \<and> length (sent c') = length (sent c) + length (apiKeys c)
        \<and> take (length (sent c)) (sent c') = sent c
        \<and> map req_key (drop (length (sent c)) (sent c'))
            = map JStr (rotate (Suc (currentKeyIndex c)) (apiKeys c))
        \<and> list_all (\<lambda>rq. req_date rq = d \<and> req_airline rq = a \<and> req_page rq = p)
             (drop (length (sent c)) (sent c'))
        \<and> totalRequests c' = totalRequests c + length (apiKeys c)
        \<and> fetch_pages srv c d a p fl = (Inr fl, c'))"
proof
  assume h: "(\<forall>n rq. resp_status (srv n rq) = 429 \<or> resp_status (srv n rq) = 403)
   \<and> apiKeys c \<noteq> [] \<and> currentKeyIndex c < length (apiKeys c)"
  then have lim: "\<And>n rq. resp_status (srv n rq) = 429 \<or> resp_status (srv n rq) = 403"
    and keys: "apiKeys c \<noteq> []" and idx: "currentKeyIndex c < length (apiKeys c)"
    by simp_all
  from fetch_pages_limited [where srv = srv and d = d and a = a and p = p and fl = fl,
      OF lim keys idx]
  obtain msg c'
    where res: "apiRequest srv c d a p 0 = (Inl (Error msg), c')"
      and fp: "fetch_pages srv c d a p fl = (Inr fl, c')"
      and tot: "totalRequests c' = totalRequests c + length (apiKeys c)"
      and sent: "sent c' = sent c @ map (attempt c 0 d a p) [0..<length (apiKeys c)]"
    by blast
  have "map req_key (drop (length (sent c)) (sent c'))
            = map JStr (rotate (Suc (currentKeyIndex c)) (apiKeys c))"
    using attempts_rotate [OF idx, of d a p] by (simp add: sent)
  moreover have "list_all (\<lambda>rq. req_date rq = d \<and> req_airline rq = a \<and> req_page rq = p)
             (drop (length (sent c)) (sent c'))"
    by (simp add: sent list_all_iff attempt_def)
  moreover have "length (sent c') = length (sent c) + length (apiKeys c)"
    by (simp add: sent)
  moreover have "take (length (sent c)) (sent c') = sent c"
    by (simp add: sent)
  ultimately show "\<exists>msg c'.
        apiRequest srv c d a p 0 = (Inl (Error msg), c')
        \<and> length (sent c') = length (sent c) + length (apiKeys c)
        \<and> take (length (sent c)) (sent c') = sent c
        \<and> map req_key (drop (length (sent c)) (sent c'))
            = map JStr (rotate (Suc (currentKeyIndex c)) (apiKeys c))
        \<and> list_all (\<lambda>rq. req_date rq = d \<and> req_airline rq = a \<and> req_page rq = p)
             (drop (length (sent c)) (sent c'))
        \<and> totalRequests c' = totalRequests c + length (apiKeys c)
        \<and> fetch_pages srv c d a p fl = (Inr fl, c')"
    using res fp tot by blast
qed

lemma limited_server_status:
  "resp_status (limited_server n rq) = 429 \<or> resp_status (limited_server n rq) = 403"
  by (simp add: limited_server_def)

text \<open>
  Three keys and a server that always answers 429: three requests, with the second, the
  third and the first key.
\<close>

theorem rate_limit_exhausts_keys_witness:
  "(\<forall>n rq. resp_status (limited_server n rq) = 429 \<or> resp_status (limited_server n rq) = 403)
   \<and> apiKeys example_client \<noteq> []
   \<and> currentKeyIndex example_client < length (apiKeys example_client)
   \<and> (\<exists>msg c'.
        apiRequest limited_server example_client ''2026-02-10'' ''AF'' 0 0 = (Inl (Error msg), c')
        \<and> length (sent c') = 3
        \<and> map req_key (sent c') = [JStr ''key-b'', JStr ''key-c'', JStr ''key-a'']
        \<and> totalRequests c' = 3
        \<and> fetch_pages limited_server example_client ''2026-02-10'' ''AF'' 0 [] = (Inr [], c'))"
proof -
  have h: "(\<forall>n rq. resp_status (limited_server n rq) = 429
              \<or> resp_status (limited_server n rq) = 403)
     \<and> apiKeys example_client \<noteq> []
     \<and> currentKeyIndex example_client < length (apiKeys example_client)"
    by (simp add: limited_server_def example_client_def)
  from rate_limit_exhausts_keys
    [of limited_server example_client "''2026-02-10''" "''AF''" 0 "[]", THEN mp, OF h]
  obtain msg c' where
    "apiRequest limited_server example_client ''2026-02-10'' ''AF'' 0 0 = (Inl (Error msg), c')"
    "length (sent c') = length (sent example_client) + length (apiKeys example_client)"
    "map req_key (drop (length (sent example_client)) (sent c'))
       = map JStr (rotate (Suc (currentKeyIndex example_client)) (apiKeys example_client))"
    "totalRequests c' = totalRequests example_client + length (apiKeys example_client)"
    "fetch_pages limited_server example_client ''2026-02-10'' ''AF'' 0 [] = (Inr [], c')"
    by blast
  then have "apiRequest limited_server example_client ''2026-02-10'' ''AF'' 0 0
        = (Inl (Error msg), c')
      \<and> length (sent c') = 3
      \<and> map req_key (sent c') = [JStr ''key-b'', JStr ''key-c'', JStr ''key-a'']
      \<and> totalRequests c' = 3
      \<and> fetch_pages limited_server example_client ''2026-02-10'' ''AF'' 0 [] = (Inr [], c')"
    by (simp add: example_client_def)
  then have "\<exists>msg c'.
        apiRequest limited_server example_client ''2026-02-10'' ''AF'' 0 0 = (Inl (Error msg), c')
        \<and> length (sent c') = 3
        \<and> map req_key (sent c') = [JStr ''key-b'', JStr ''key-c'', JStr ''key-a'']
        \<and> totalRequests c' = 3
        \<and> fetch_pages limited_server example_client ''2026-02-10'' ''AF'' 0 [] = (Inr [], c')"
    by (intro exI [of _ c'] exI [of _ msg])
  with h show ?thesis by (intro conjI) simp_all
qed

text \<open>
  C5 as stated fails in its last part: after the three keys are used up the error does not
  escalate. \<^verbatim>\<open>fetchFlightsForDate\<close> returns normally, with no flights.
\<close>

theorem rate_limit_handled_counterexample:
  "fst (fetchFlightsForDate limited_server example_client ''2026-02-10'' ''AF'') = Inr []
   \<and> map req_key (sent (snd (fetchFlightsForDate limited_server example_client
        ''2026-02-10'' ''AF''))) = [JStr ''key-b'', JStr ''key-c'', JStr ''key-a'']"
proof -
  have "apiKeys example_client \<noteq> []"
    and "currentKeyIndex example_client < length (apiKeys example_client)"
    by (simp_all add: example_client_def)
  from fetch_pages_limited [where srv = limited_server and d = "''2026-02-10''"
      and a = "''AF''" and p = 0 and fl = "[]", OF limited_server_status this]
  show ?thesis
    by (auto simp: fetchFlightsForDate_def attempt_def first_index_def example_client_def
        upt_rec)
qed


lemma apiRequest_ok:
  assumes ok: "\<And>n rq. resp_ok (srv n rq)"
  shows "\<exists>c'. apiRequest srv c d a p 0 = (Inr (resp_body (srv (length (sent c))
            \<lparr>req_key = getApiKey c', req_date = d, req_airline = a, req_page = p\<rparr>)), c')
         \<and> apiKeys c' = apiKeys c
         \<and> totalRequests c' = totalRequests c + 1
         \<and> (\<exists>k. sent c' = sent c @ [\<lparr>req_key = k, req_date = d, req_airline = a,
               req_page = p\<rparr>])"
proof -
  define c2 where "c2 = (if length (apiKeys (c\<lparr>totalRequests := totalRequests c + 1\<rparr>)) > 1
                 \<and> (0::nat) = 0
                 then rotateKey (c\<lparr>totalRequests := totalRequests c + 1\<rparr>)
                 else c\<lparr>totalRequests := totalRequests c + 1\<rparr>)"
  define rq where "rq = \<lparr>req_key = getApiKey c2, req_date = d, req_airline = a, req_page = p\<rparr>"
  define resp where "resp = srv (length (sent c2)) rq"
  define c3 where "c3 = c2\<lparr>sent := sent c2 @ [rq]\<rparr>"
  note unfold = apiRequest_unfold [where srv = srv, OF c2_def rq_def resp_def c3_def]
  have "resp_ok resp" unfolding resp_def by (rule ok)
  then have res: "apiRequest srv c d a p 0 = (Inr (resp_body resp), c3)"
    by (simp add: unfold)
  have sent2: "sent c2 = sent c" by (simp add: c2_def rotateKey_def)
  have key: "getApiKey c3 = getApiKey c2" by (simp add: c3_def getApiKey_def)
  have "apiKeys c3 = apiKeys c" "totalRequests c3 = totalRequests c + 1"
    by (simp_all add: c3_def c2_def rotateKey_def)
  moreover have "sent c3 = sent c @ [\<lparr>req_key = getApiKey c2, req_date = d, req_airline = a,
               req_page = p\<rparr>]"
    by (simp add: c3_def sent2 rq_def)
  ultimately show ?thesis
    using res by (auto simp: resp_def rq_def sent2 key intro!: exI [of _ c3])
qed

lemma fetch_pages_endless:
  assumes ok: "\<And>n rq. resp_ok (srv n rq)"
    and pages: "\<And>n rq. totalPages (resp_body (srv n rq)) = Some T" and T: "102 \<le> T"
  shows "p \<le> 100 \<Longrightarrow>
     \<exists>fl' c'. fetch_pages srv c d a p fl = (Inr fl', c')
       \<and> map req_page (sent c') = map req_page (sent c) @ [p..<101]
       \<and> totalRequests c' = totalRequests c + (101 - p)"
proof (induction k \<equiv> "100 - p" arbitrary: c p fl)
  case 0
  then have p: "p = 100" by simp
  from apiRequest_ok [where srv = srv and c = c and d = d and a = a and p = p, OF ok] obtain c1 body
    where res: "apiRequest srv c d a p 0 = (Inr body, c1)"
      and tot: "totalRequests c1 = totalRequests c + 1"
      and sent: "map req_page (sent c1) = map req_page (sent c) @ [p]"
    by auto
  from res have "\<exists>fl'. fetch_pages srv c d a p fl = (Inr fl', c1)"
    by (subst fetch_pages.simps) (simp add: p Let_def)
  with tot sent show ?case
    by (auto simp: p)
next
  case (Suc k)
  then have p: "p < 100" by simp
  from apiRequest_ok [where srv = srv and c = c and d = d and a = a and p = p, OF ok] obtain c1 n rq
    where res: "apiRequest srv c d a p 0 = (Inr (resp_body (srv n rq)), c1)"
      and tot: "totalRequests c1 = totalRequests c + 1"
      and sent: "map req_page (sent c1) = map req_page (sent c) @ [p]"
    by auto
  have more: "int p < (case totalPages (resp_body (srv n rq)) of None \<Rightarrow> 1
                        | Some t \<Rightarrow> if t = 0 then 1 else t) - 1"
    using p T by (simp add: pages)
  define fl1 where "fl1 = fl @ (case operationalFlights (resp_body (srv n rq)) of
                                  None \<Rightarrow> [] | Some fs \<Rightarrow> fs)"
  have step: "fetch_pages srv c d a p fl = fetch_pages srv c1 d a (p + 1) fl1"
    using more p by (subst fetch_pages.simps) (simp add: res Let_def fl1_def)
  have "k = 100 - (p + 1)" "p + 1 \<le> 100" using Suc.hyps(2) p by simp_all
  from Suc.hyps(1) [OF this, where c = c1 and fl = fl1] obtain fl' c'
    where "fetch_pages srv c1 d a (p + 1) fl1 = (Inr fl', c')"
      and "map req_page (sent c') = map req_page (sent c1) @ [p + 1..<101]"
      and "totalRequests c' = totalRequests c1 + (101 - (p + 1))"
    by blast
  with step tot sent p show ?case
    by (auto simp: upt_conv_Cons)
qed

lemma endless_server_ok: "resp_ok (endless_server n rq)"
  by (simp add: endless_server_def resp_ok_def)

text \<open>
  C4. The loop leaves through \<^verbatim>\<open>if (pageNumber > 100) break\<close>, tested after the
  increment, so the iteration for page number 100 still runs. Against a server that keeps
  reporting further pages the client requests the page numbers 0 to 100, which are 101
  pages, one more than the claimed cap of 100.
\<close>

theorem fetchFlightsForDate_requests_101_pages:
  "map req_page (sent (snd (fetchFlightsForDate endless_server example_client
      ''2026-02-10'' ''AF''))) = [0..<101]
   \<and> length (sent (snd (fetchFlightsForDate endless_server example_client
      ''2026-02-10'' ''AF''))) = 101
   \<and> totalRequests (snd (fetchFlightsForDate endless_server example_client
      ''2026-02-10'' ''AF'')) = 101"
proof -
  have pages: "totalPages (resp_body (endless_server n rq)) = Some 1000" for n rq
    by (simp add: endless_server_def)
  from fetch_pages_endless [where srv = endless_server and T = 1000 and p = 0
      and c = example_client and d = "''2026-02-10''" and a = "''AF''" and fl = "[]",
      OF endless_server_ok pages]
  obtain fl' c' where "fetchFlightsForDate endless_server example_client ''2026-02-10'' ''AF''
       = (Inr fl', c')"
    and pg: "map req_page (sent c') = [0..<101]" and "totalRequests c' = 101"
    by (auto simp: fetchFlightsForDate_def example_client_def)
  moreover from pg have "length (sent c') = 101"
    by (metis length_map length_upt diff_zero)
  ultimately show ?thesis by simp
qed


lemma apiRequest_sent:
  "apiRequest srv c d a p r = (res, c') \<Longrightarrow>
   \<exists>new. sent c' = sent c @ new \<and> (\<forall>rq \<in> set new. req_page rq = p)"
proof (induction srv c d a p r arbitrary: res c' rule: apiRequest.induct)
  case (1 srv c d a p r)
  define c2 where "c2 = (if length (apiKeys (c\<lparr>totalRequests := totalRequests c + 1\<rparr>)) > 1
                 \<and> r = 0
                 then rotateKey (c\<lparr>totalRequests := totalRequests c + 1\<rparr>)
                 else c\<lparr>totalRequests := totalRequests c + 1\<rparr>)"
  define rq where "rq = \<lparr>req_key = getApiKey c2, req_date = d, req_airline = a, req_page = p\<rparr>"
  define resp where "resp = srv (length (sent c2)) rq"
  define c3 where "c3 = c2\<lparr>sent := sent c2 @ [rq]\<rparr>"
  note unfold = apiRequest_unfold [where srv = srv, OF c2_def rq_def resp_def c3_def]
  have sent3: "sent c3 = sent c @ [rq]" by (simp add: c3_def c2_def rotateKey_def)
  have page: "req_page rq = p" by (simp add: rq_def)
  show ?case
  proof (cases "\<not> resp_ok resp \<and> (resp_status resp = 429 \<or> resp_status resp = 403)
      \<and> int r < int (length (apiKeys c3)) - 1")
    case True
    then have "apiRequest srv (rotateKey c3) d a p (r + 1) = (res, c')"
      using "1.prems" by (simp add: unfold)
    moreover from True have "\<not> resp_ok resp"
      and "(resp_status resp = 429 \<or> resp_status resp = 403)
        \<and> int r < int (length (apiKeys c3)) - 1"
      by simp_all
    ultimately have "\<exists>new. sent c' = sent (rotateKey c3) @ new
        \<and> (\<forall>rq \<in> set new. req_page rq = p)"
      using "1.IH" [OF refl c2_def rq_def resp_def c3_def] by blast
    then obtain new where "sent c' = sent (rotateKey c3) @ new" "\<forall>rq \<in> set new. req_page rq = p"
      by blast
    with sent3 page show ?thesis
      by (auto simp: rotateKey_def)
  next
    case False
    then have "c' = c3"
      using "1.prems" by (auto simp: unfold split: if_splits)
    with sent3 page show ?thesis by simp
  qed
qed


text \<open>
  Whatever the server answers, the loop started at a page number up to 100 requests no
  page number above 100.
\<close>

lemma fetch_pages_bound:
  "fetch_pages srv c d a p fl = (res, c') \<Longrightarrow>
   \<exists>new. sent c' = sent c @ new \<and> (\<forall>rq \<in> set new. p \<le> req_page rq \<and> req_page rq \<le> max p 100)"
proof (induction srv c d a p fl arbitrary: res c' rule: fetch_pages.induct)
  case (1 srv c d a p fl)
  obtain r1 c1 where req: "apiRequest srv c d a p 0 = (r1, c1)"
    by (cases "apiRequest srv c d a p 0")
  from apiRequest_sent [OF req] obtain new1
    where new1: "sent c1 = sent c @ new1" "\<forall>rq \<in> set new1. req_page rq = p"
    by blast
  show ?case
  proof (cases r1)
    case (Inl e)
    with req "1.prems" have "c' = c1"
      by (subst (asm) fetch_pages.simps) (auto split: if_splits)
    with new1 show ?thesis by auto
  next
    case (Inr resp)
    define fl1 where "fl1 = fl @ (case operationalFlights resp of None \<Rightarrow> [] | Some fs \<Rightarrow> fs)"
    define total where "total = (case totalPages resp of None \<Rightarrow> 1
                                 | Some t \<Rightarrow> if t = 0 then 1 else t)"
    show ?thesis
    proof (cases "\<not> p + 1 > 100 \<and> int p < total - 1")
      case False
      with req Inr "1.prems" have "c' = c1"
        by (subst (asm) fetch_pages.simps) (auto simp: Let_def total_def split: if_splits)
      with new1 show ?thesis by auto
    next
      case True
      with req Inr "1.prems" have call: "fetch_pages srv c1 d a (p + 1) fl1 = (res, c')"
        by (subst (asm) fetch_pages.simps) (auto simp: Let_def total_def fl1_def)
      from True have cap: "\<not> 100 < p + 1" and more: "int p < total - 1" by simp_all
      from "1.IH" [OF req [symmetric] Inr refl refl refl refl refl cap
          more [unfolded total_def] call [unfolded fl1_def]]
      obtain new2 where "sent c' = sent c1 @ new2"
        "\<forall>rq \<in> set new2. p + 1 \<le> req_page rq \<and> req_page rq \<le> max (p + 1) 100"
        by blast
      with new1 True show ?thesis
        by (auto simp: max_def split: if_splits)
    qed
  qed
qed

subsection \<open>The saved catalog\<close>

lemma set_insert_by: "set (insert_by cmp x xs) = insert x (set xs)"
  by (induction xs) auto

lemma mset_insert_by: "mset (insert_by cmp x xs) = add_mset x (mset xs)"
  by (induction xs) auto

lemma mset_js_sort: "mset (js_sort cmp xs) = mset xs"
  by (induction xs) (simp_all add: js_sort_def mset_insert_by)

lemma length_js_sort: "length (js_sort cmp xs) = length xs"
  by (metis mset_js_sort size_mset)

lemma sorted_insert_by:
  assumes total: "\<forall>a b. cmp a b \<le> 0 \<or> cmp b a \<le> 0"
    and trans: "\<forall>a b c. cmp a b \<le> 0 \<and> cmp b c \<le> 0 \<longrightarrow> cmp a c \<le> 0"
    and sorted: "sorted_wrt (\<lambda>a b. cmp a b \<le> 0) xs"
  shows "sorted_wrt (\<lambda>a b. cmp a b \<le> 0) (insert_by cmp x xs)"
  using sorted
proof (induction xs)
  case Nil
  then show ?case by simp
next
  case (Cons y ys)
  show ?case
  proof (cases "cmp x y \<le> 0")
    case True
    have "cmp x z \<le> 0" if "z \<in> set ys" for z
    proof -
      from Cons.prems that have "cmp y z \<le> 0" by simp
      with True trans show ?thesis by blast
    qed
    with True Cons.prems show ?thesis by simp
  next
    case False
    with total have "cmp y x \<le> 0" by blast
    moreover from Cons have "sorted_wrt (\<lambda>a b. cmp a b \<le> 0) (insert_by cmp x ys)" by simp
    ultimately show ?thesis
      using False Cons.prems by (simp add: set_insert_by)
  qed
qed

lemma sorted_js_sort:
  assumes total: "\<forall>a b. cmp a b \<le> 0 \<or> cmp b a \<le> 0"
    and trans: "\<forall>a b c. cmp a b \<le> 0 \<and> cmp b c \<le> 0 \<longrightarrow> cmp a c \<le> 0"
  shows "sorted_wrt (\<lambda>a b. cmp a b \<le> 0) (js_sort cmp xs)"
proof (induction xs)
  case Nil
  then show ?case by (simp add: js_sort_def)
next
  case (Cons x xs)
  have "sorted_wrt (\<lambda>a b. cmp a b \<le> 0) (insert_by cmp x (js_sort cmp xs))"
    using total trans Cons by (rule sorted_insert_by)
  then show ?case by (simp add: js_sort_def)
qed

lemma consistent_flip: "consistent cmp \<Longrightarrow> (cmp a b < 0) = (0 < cmp b a)"
  by (simp add: consistent_def)

lemma consistent_trans:
  "consistent cmp \<Longrightarrow> cmp a b \<le> 0 \<Longrightarrow> cmp b c \<le> 0 \<Longrightarrow> cmp a c \<le> 0"
  unfolding consistent_def by blast

lemma consistent_sym0:
  assumes "consistent cmp" "cmp a b = 0"
  shows "cmp b a = 0"
proof -
  from assms have "\<not> 0 < cmp b a" using consistent_flip [of cmp a b] by simp
  moreover from assms have "\<not> cmp b a < 0" using consistent_flip [of cmp b a] by simp
  ultimately show ?thesis by simp
qed

lemma consistent_total:
  assumes "consistent cmp"
  shows "cmp a b \<le> 0 \<or> cmp b a \<le> 0"
proof (cases "cmp a b \<le> 0")
  case True
  then show ?thesis by simp
next
  case False
  then have "0 < cmp a b" by simp
  with assms have "cmp b a < 0" using consistent_flip [of cmp b a] by simp
  then show ?thesis by simp
qed

lemma consistent_less_le:
  assumes c: "consistent cmp" and ab: "cmp a b < 0" and bc: "cmp b c \<le> 0"
  shows "cmp a c < 0"
proof (rule ccontr)
  assume n: "\<not> cmp a c < 0"
  from ab have "cmp a b \<le> 0" by simp
  with c have "cmp a c \<le> 0" using bc by (rule consistent_trans)
  with n have "cmp a c = 0" by simp
  with c have "cmp c a = 0" by (rule consistent_sym0)
  then have "cmp c a \<le> 0" by simp
  with c bc have "cmp b a \<le> 0" by (rule consistent_trans)
  moreover from ab c have "0 < cmp b a" using consistent_flip [of cmp a b] by simp
  ultimately show False by simp
qed

lemma consistent_le_less:
  assumes c: "consistent cmp" and ab: "cmp a b \<le> 0" and bc: "cmp b c < 0"
  shows "cmp a c < 0"
proof (rule ccontr)
  assume n: "\<not> cmp a c < 0"
  from bc have "cmp b c \<le> 0" by simp
  with c ab have "cmp a c \<le> 0" by (rule consistent_trans)
  with n have "cmp a c = 0" by simp
  with c have "cmp c a = 0" by (rule consistent_sym0)
  then have "cmp c a \<le> 0" by simp
  with c have "cmp c b \<le> 0" using ab by (rule consistent_trans)
  moreover from bc c have "0 < cmp c b" using consistent_flip [of cmp b c] by simp
  ultimately show False by simp
qed

lemma type_key_eq: "or_empty (opt_chain (aircraft_type a) iata_code) = type_key a"
  by (simp add: or_empty_def opt_chain_def type_key_def split: option.splits jsval.splits)

lemma compareAircraft_order: "compareAircraft lc a b \<le> 0 \<longleftrightarrow> catalog_order lc a b"
  by (auto simp: compareAircraft_def catalog_order_def Let_def type_key_eq)

lemma catalog_order_total:
  assumes "consistent lc"
  shows "catalog_order lc a b \<or> catalog_order lc b a"
proof -
  let ?ia = "type_key a"
  let ?ib = "type_key b"
  consider "lc ?ia ?ib < 0" | "lc ?ia ?ib = 0" | "0 < lc ?ia ?ib" by linarith
  then show ?thesis
  proof cases
    case 1
    then show ?thesis by (simp add: catalog_order_def)
  next
    case 2
    with assms have "lc ?ib ?ia = 0" by (simp add: consistent_sym0)
    with 2 consistent_total [OF assms, of "registration a" "registration b"]
    show ?thesis by (auto simp: catalog_order_def)
  next
    case 3
    with assms have "lc ?ib ?ia < 0" using consistent_flip [of lc ?ib ?ia] by simp
    then show ?thesis by (simp add: catalog_order_def)
  qed
qed

lemma catalog_order_trans:
  assumes c: "consistent lc" and ab: "catalog_order lc a b" and bc: "catalog_order lc b c"
  shows "catalog_order lc a c"
proof -
  let ?ia = "type_key a"
  let ?ib = "type_key b"
  let ?ic = "type_key c"
  from ab have ab': "lc ?ia ?ib < 0 \<or> lc ?ia ?ib = 0 \<and> lc (registration a) (registration b) \<le> 0"
    by (simp add: catalog_order_def)
  from bc have bc': "lc ?ib ?ic < 0 \<or> lc ?ib ?ic = 0 \<and> lc (registration b) (registration c) \<le> 0"
    by (simp add: catalog_order_def)
  show ?thesis
  proof (cases "lc ?ia ?ib < 0")
    case True
    moreover from bc' have "lc ?ib ?ic \<le> 0" by auto
    ultimately have "lc ?ia ?ic < 0" using c by (metis consistent_less_le)
    then show ?thesis by (simp add: catalog_order_def)
  next
    case False
    with ab' have eq1: "lc ?ia ?ib = 0" and r1: "lc (registration a) (registration b) \<le> 0"
      by simp_all
    show ?thesis
    proof (cases "lc ?ib ?ic < 0")
      case True
      moreover from eq1 have "lc ?ia ?ib \<le> 0" by simp
      ultimately have "lc ?ia ?ic < 0" using c by (metis consistent_le_less)
      then show ?thesis by (simp add: catalog_order_def)
    next
      case False
      with bc' have eq2: "lc ?ib ?ic = 0" and r2: "lc (registration b) (registration c) \<le> 0"
        by simp_all
      from eq1 eq2 have "lc ?ia ?ib \<le> 0" "lc ?ib ?ic \<le> 0" by simp_all
      with c have le: "lc ?ia ?ic \<le> 0" by (rule consistent_trans)
      from c eq1 have "lc ?ib ?ia = 0" by (rule consistent_sym0)
      moreover from c eq2 have "lc ?ic ?ib = 0" by (rule consistent_sym0)
      ultimately have "lc ?ic ?ib \<le> 0" "lc ?ib ?ia \<le> 0" by simp_all
      with c have "lc ?ic ?ia \<le> 0" by (rule consistent_trans)
      then have "\<not> 0 < lc ?ic ?ia" by simp
      with c have "\<not> lc ?ia ?ic < 0" using consistent_flip [of lc ?ia ?ic] by simp
      with le have "lc ?ia ?ic = 0" by simp
      moreover from c r1 r2 have "lc (registration a) (registration c) \<le> 0"
        by (rule consistent_trans)
      ultimately show ?thesis by (simp add: catalog_order_def)
    qed
  qed
qed

lemma sorted_catalog:
  assumes "consistent lc"
  shows "sorted_wrt (catalog_order lc) (js_sort (compareAircraft lc) xs)"
proof -
  have "\<forall>a b. compareAircraft lc a b \<le> 0 \<or> compareAircraft lc b a \<le> 0"
    using catalog_order_total [OF assms] by (simp add: compareAircraft_order)
  moreover have "\<forall>a b c. compareAircraft lc a b \<le> 0 \<and> compareAircraft lc b c \<le> 0
      \<longrightarrow> compareAircraft lc a c \<le> 0"
    using catalog_order_trans [OF assms] by (simp add: compareAircraft_order) blast
  ultimately have "sorted_wrt (\<lambda>a b. compareAircraft lc a b \<le> 0)
      (js_sort (compareAircraft lc) xs)"
    by (rule sorted_js_sort)
  then show ?thesis by (simp add: compareAircraft_order)
qed

text \<open>
  C8. For a consistent \<^verbatim>\<open>localeCompare\<close>, a run that reaches its end writes the catalog
  file exactly when dry-run is off and one of the counters of new, updated and seen
  aircraft is positive; and whenever the file is written, its \<open>aircraft_count\<close> is the
  length of its aircraft list, and the list is in the order of IATA type code, then
  registration, and holds the same records as the catalog in memory. The type code of a
  record is read from its fields: the string of \<open>aircraft_type.iata_code\<close>, and the empty
  string when the record has no \<open>aircraft_type\<close> or no \<open>iata_code\<close> in it.
\<close>

theorem catalog_saved_sorted:
  "consistent lc \<and> main opts srv lc clock client0 stored = Inr out \<longrightarrow>
     ((catalog_file out \<noteq> None)
        = (\<not> dryRun opts \<and> (totalNew (final_state out) > 0
             \<or> totalUpdated (final_state out) > 0 \<or> totalSeen (final_state out) > 0)))
     \<and> (\<forall>cat. catalog_file out = Some cat \<longrightarrow>
           aircraft_count cat = int (length (aircraft cat))
           \<and> sorted_wrt (catalog_order lc) (aircraft cat)
           \<and> mset (aircraft cat) = mset (aircraft (catalog (final_state out))))"
proof
  assume h: "consistent lc \<and> main opts srv lc clock client0 stored = Inr out"
  then obtain cs where out: "out = finish opts lc clock cs"
    by (auto simp: main_def split: sum.splits)
  from h have "sorted_wrt (catalog_order lc) (js_sort (compareAircraft lc) xs)" for xs
    by (simp add: sorted_catalog)
  then show "((catalog_file out \<noteq> None)
        = (\<not> dryRun opts \<and> (totalNew (final_state out) > 0
             \<or> totalUpdated (final_state out) > 0 \<or> totalSeen (final_state out) > 0)))
     \<and> (\<forall>cat. catalog_file out = Some cat \<longrightarrow>
           aircraft_count cat = int (length (aircraft cat))
           \<and> sorted_wrt (catalog_order lc) (aircraft cat)
           \<and> mset (aircraft cat) = mset (aircraft (catalog (final_state out))))"
    by (auto simp: out finish_def Let_def length_js_sort mset_js_sort)
qed

subsection \<open>The example run\<close>

lemma example_seen:
  "collect_seen ''AF'' example_flights []
     = [(''F-HTYA'', example_observation (JStr ''Y'') (JStr ''Y'')),
        (''F-HZUA'', (example_observation (JStr ''Y'') JNull)
           \<lparr>obs_registration := ''F-HZUA'', typeCode := JStr ''223'',
            typeName := JStr ''AIRBUS A220-300''\<rparr>)]"
  by (simp add: example_flights_def example_flight_def extractAircraftFromFlight_def
      example_observation_def or_null_def)

lemma example_options_sel:
  "airlineCode (example_options dry) = ''AF''" "dryRun (example_options dry) = dry"
  "outputChanges (example_options dry) = True" "bootstrap (example_options dry) = False"
  "datesToProcess (example_options dry) = [''2026-02-10'']"
  by (simp_all add: example_options_def)

lemma example_catalog_aircraft: "aircraft example_catalog = [example_aircraft, example_untyped]"
  by (simp add: example_catalog_def)

lemma example_registrations:
  "registration example_aircraft = ''F-HTYA''" "registration example_untyped = ''F-HZZZ''"
  by (simp_all add: example_aircraft_def example_untyped_def transformToSchema_def
      example_observation_def Let_def)

lemma example_initial:
  "initial_state (example_options dry) example_clock (Some example_catalog)
     = \<lparr>catalog = example_catalog, aircraftByReg = [(''F-HTYA'', 0), (''F-HZZZ'', 1)],
        totalNew = 0, totalUpdated = 0, totalSeen = 0, allChanges = [], ticks = 0\<rparr>"
  by (simp add: initial_state_def example_options_sel example_catalog_aircraft
      example_registrations Let_def)

lemma saturated_catalog_aircraft:
  "aircraft saturated_catalog
     = [example_aircraft\<lparr>tracking :=
          Some \<lparr>first_seen = ''2026-02-04'', last_seen = Some ''2026-02-04'',
                total_flights = Some 9007199254740994\<rparr>\<rparr>,
        example_untyped]"
  by (simp add: saturated_catalog_def)

lemma saturated_initial:
  "initial_state (example_options dry) example_clock (Some saturated_catalog)
     = \<lparr>catalog = saturated_catalog, aircraftByReg = [(''F-HTYA'', 0), (''F-HZZZ'', 1)],
        totalNew = 0, totalUpdated = 0, totalSeen = 0, allChanges = [], ticks = 0\<rparr>"
  by (simp add: initial_state_def example_options_sel saturated_catalog_aircraft
      example_registrations Let_def)

lemma saturated_initial_flights:
  "flights_of (initial_state (example_options dry) example_clock (Some saturated_catalog))
     ''F-HTYA'' = 9007199254740994"
  by (simp add: saturated_initial flights_of_def record_flights_def saturated_catalog_aircraft
      flights_count_def)

lemma next_total_flights_None: "next_total_flights None = 1"
  by (simp add: next_total_flights_def to_double_def)

lemma saturated_process:
  "\<exists>st. process_date (example_options False) example_clock ''2026-02-10'' example_flights
          (initial_state (example_options False) example_clock (Some saturated_catalog)) = Inr st
     \<and> flights_of st ''F-HTYA'' = 9007199254740996"
  by (simp add: process_date_def example_seen saturated_initial example_options_sel
      saturated_catalog_aircraft process_aircraft_def Let_def
      reconcile_def detectChanges_def
      tracked_change_def opt_chain_def mergeAircraft_def example_aircraft_def
      transformToSchema_def example_observation_def convertWifi_def flights_of_def
      record_flights_def flights_count_def next_total_flights_rounds
      next_total_flights_None)

lemma example_process:
  "\<exists>st a1 a2 a3. process_date (example_options False) example_clock ''2026-02-10'' example_flights
          (initial_state (example_options False) example_clock (Some example_catalog)) = Inr st
     \<and> aircraft (catalog st) = [a1, a2, a3]
     \<and> registration a1 = ''F-HTYA'' \<and> registration a2 = ''F-HZZZ''
     \<and> registration a3 = ''F-HZUA''
     \<and> type_key a1 = ''359'' \<and> type_key a2 = [] \<and> type_key a3 = ''223''
     \<and> opt_chain (aircraft_type a1) iata_code = JStr ''359''
     \<and> opt_chain (aircraft_type a2) iata_code = JNull
     \<and> opt_chain (aircraft_type a3) iata_code = JStr ''223''
     \<and> totalNew st = 1 \<and> totalUpdated st = 1 \<and> totalSeen st = 0
     \<and> map fst (allChanges st) = [''F-HTYA'', ''F-HTYA'']
     \<and> flights_of st ''F-HTYA'' = 2 \<and> flights_of st ''F-HZUA'' = 1"
  by (simp add: process_date_def example_seen example_initial example_options_sel
      example_catalog_aircraft process_aircraft_def Let_def
      reconcile_def detectChanges_def
      tracked_change_def opt_chain_def mergeAircraft_def example_aircraft_def
      example_untyped_def type_key_def
      transformToSchema_def example_observation_def convertWifi_def flights_of_def
      record_flights_def flights_count_def next_total_flights_def to_double_def)


lemma example_initial_flights:
  "flights_of (initial_state (example_options dry) example_clock (Some example_catalog))
     ''F-HTYA'' = 1"
  by (simp add: example_initial flights_of_def record_flights_def example_catalog_aircraft
      example_aircraft_def transformToSchema_def Let_def flights_count_def)

lemma example_extracted:
  "length (filter (\<lambda>ex. obs_registration ex = ''F-HTYA'')
     (List.map_filter (\<lambda>fl. extractAircraftFromFlight fl ''AF'') example_flights)) = 2"
  by (simp add: example_flights_def example_flight_def extractAircraftFromFlight_def
      List.map_filter_simps)

lemma compare_code_units_consistent: "consistent compare_code_units"
  by (auto simp: consistent_def compare_code_units_def)

subsection \<open>The loop over the dates\<close>

lemma map_of_map_set: "map_of (map_set k v m) = (map_of m)(k \<mapsto> v)"
  by (induction m) (auto simp: fun_eq_iff)

lemma set_map_set: "set (map_set k v m) \<subseteq> insert (k, v) (set m)"
  by (induction m) (auto split: if_splits)

lemma keys_map_set:
  "map fst (map_set k v m) = (if k \<in> fst ` set m then map fst m else map fst m @ [k])"
  by (induction m) force+

lemma distinct_map_set: "distinct (map fst m) \<Longrightarrow> distinct (map fst (map_set k v m))"
  by (simp add: keys_map_set)

lemma extract_registration:
  "extractAircraftFromFlight fl ac = Some ex \<Longrightarrow> obs_registration ex \<noteq> []"
  by (auto simp: extractAircraftFromFlight_def split: option.splits list.splits jsval.splits
      if_splits)

lemma collect_seen_keys:
  "distinct (map fst seen) \<Longrightarrow> list_all (\<lambda>e. fst e = obs_registration (snd e)) seen \<Longrightarrow>
   distinct (map fst (collect_seen ac fls seen))
   \<and> list_all (\<lambda>e. fst e = obs_registration (snd e)) (collect_seen ac fls seen)"
proof (induction fls arbitrary: seen)
  case Nil
  then show ?case by simp
next
  case (Cons fl fls)
  show ?case
  proof (cases "extractAircraftFromFlight fl ac")
    case None
    with Cons show ?thesis by simp
  next
    case (Some ex)
    let ?seen = "map_set (obs_registration ex) ex seen"
    have "distinct (map fst ?seen)"
      using Cons.prems(1) by (rule distinct_map_set)
    moreover have "list_all (\<lambda>e. fst e = obs_registration (snd e)) ?seen"
      using Cons.prems(2) set_map_set [of "obs_registration ex" ex seen]
      by (auto simp: list_all_iff)
    ultimately have "distinct (map fst (collect_seen ac fls ?seen))
      \<and> list_all (\<lambda>e. fst e = obs_registration (snd e)) (collect_seen ac fls ?seen)"
      by (rule Cons.IH)
    with Some Cons.prems show ?thesis
      using Cons.IH [of seen] by simp
  qed
qed

lemma map_of_collect_seen:
  "map_of (collect_seen ac fls seen) reg =
     (case filter (\<lambda>ex. obs_registration ex = reg)
             (List.map_filter (\<lambda>fl. extractAircraftFromFlight fl ac) fls) of
        [] \<Rightarrow> map_of seen reg
      | ex # exs \<Rightarrow> Some (last (ex # exs)))"
proof (induction fls arbitrary: seen)
  case Nil
  then show ?case by (simp add: List.map_filter_simps)
next
  case (Cons fl fls)
  show ?case
  proof (cases "extractAircraftFromFlight fl ac")
    case None
    with Cons show ?thesis by (simp add: List.map_filter_simps)
  next
    case (Some ex)
    then have "obs_registration ex \<noteq> []" by (rule extract_registration)
    with Some show ?thesis
      by (simp add: List.map_filter_simps Cons.IH map_of_map_set split: list.splits)
  qed
qed

lemma list_all_map_set: "list_all P m \<Longrightarrow> P (k, v) \<Longrightarrow> list_all P (map_set k v m)"
  using set_map_set [of k v m] by (auto simp: list_all_iff)

lemma build_lookup_ok:
  "xs = pre @ as \<Longrightarrow> length pre = i \<Longrightarrow>
   list_all (\<lambda>(reg, j). j < length xs \<and> registration (xs ! j) = reg) m \<Longrightarrow>
   list_all (\<lambda>(reg, j). j < length xs \<and> registration (xs ! j) = reg) (build_lookup as i m)"
proof (induction as arbitrary: pre i m)
  case Nil
  then show ?case by simp
next
  case (Cons a as)
  let ?P = "\<lambda>(reg, j). j < length xs \<and> registration (xs ! j) = reg"
  have "?P (registration a, i)"
    using Cons.prems(1,2) by auto
  with Cons.prems(3) have "list_all ?P (map_set (registration a) i m)"
    by (rule list_all_map_set)
  moreover have "xs = (pre @ [a]) @ as" "length (pre @ [a]) = Suc i"
    using Cons.prems(1,2) by simp_all
  ultimately have "list_all ?P (build_lookup as (Suc i) (map_set (registration a) i m))"
    using Cons.IH [of "pre @ [a]" "Suc i"] by blast
  then show ?case by simp
qed

lemma lookup_ok_initial: "lookup_ok (initial_state opts clock stored)"
proof -
  have "list_all (\<lambda>(reg, j). j < length as \<and> registration (as ! j) = reg)
          (build_lookup as 0 [])" for as
    by (rule build_lookup_ok [of as "[]"]) simp_all
  then show ?thesis
    by (auto simp: lookup_ok_def initial_state_def Let_def split: option.splits)
qed


lemma flights_count_Some: "flights_count (Some n) = n"
  by (simp add: flights_count_def)

lemma reconcile_effect:
  assumes "reconcile dry ex new d now = Inr (act, chs, r)"
  shows "registration r = registration ex"
    and "record_flights r
           = (if dry then record_flights ex else to_double (record_flights ex + 1))"
    and "dry \<Longrightarrow> r = ex"
    and "chs = detectChanges ex new d"
    and "(act = UPDATE) = (chs \<noteq> [])"
  using assms
  by (auto simp: reconcile_def Let_def mergeAircraft_def record_flights_def
      next_total_flights_eq flights_count_Some split: if_splits option.splits sum.splits)

lemma process_aircraft_new:
  assumes "map_of (aircraftByReg st) reg = None"
    and "process_aircraft opts clock d st (reg, raw) = Inr st'"
  shows "dryRun opts \<Longrightarrow> catalog st' = catalog st \<and> aircraftByReg st' = aircraftByReg st"
    and "\<not> dryRun opts \<Longrightarrow>
           aircraft (catalog st') = aircraft (catalog st)
             @ [transformToSchema raw d (clock (ticks st)) (clock (ticks st + 1))]
           \<and> aircraftByReg st'
               = map_set reg (length (aircraft (catalog st))) (aircraftByReg st)"
    and "totalNew st' = totalNew st + 1 \<and> totalUpdated st' = totalUpdated st
           \<and> totalSeen st' = totalSeen st \<and> allChanges st' = allChanges st"
  using assms by (auto simp: process_aircraft_def Let_def split: if_splits)

lemma process_aircraft_existing:
  assumes "map_of (aircraftByReg st) reg = Some i"
    and "process_aircraft opts clock d st (reg, raw) = Inr st'"
  shows "i < length (aircraft (catalog st)) \<and> aircraftByReg st' = aircraftByReg st
     \<and> totalNew st' = totalNew st
     \<and> (\<exists>r. aircraft (catalog st') = (aircraft (catalog st))[i := r]
            \<and> registration r = registration (aircraft (catalog st) ! i)
            \<and> record_flights r
                = (if dryRun opts then record_flights (aircraft (catalog st) ! i)
                   else to_double (record_flights (aircraft (catalog st) ! i) + 1))
            \<and> (dryRun opts \<longrightarrow> catalog st' = catalog st))"
proof -
  let ?acs = "aircraft (catalog st)"
  let ?new = "transformToSchema raw d (clock (ticks st)) (clock (ticks st + 1))"
  from assms have i: "i < length ?acs"
    by (auto simp: process_aircraft_def Let_def split: if_splits)
  with assms obtain act chs r
    where rec: "reconcile (dryRun opts) (?acs ! i) ?new d (clock (ticks st + 2)) = Inr (act, chs, r)"
    by (auto simp: process_aircraft_def Let_def split: sum.splits)
  with assms i have st': "aircraft (catalog st') = ?acs[i := r]"
    "aircraftByReg st' = aircraftByReg st" "totalNew st' = totalNew st"
    by (auto simp: process_aircraft_def Let_def split: if_splits)
  have dry: "catalog st' = catalog st" if "dryRun opts"
  proof -
    from that rec have "r = ?acs ! i" by (rule reconcile_effect(3) [rotated])
    with assms i rec that show ?thesis
      by (auto simp: process_aircraft_def Let_def split: if_splits)
  qed
  from reconcile_effect(1,2) [OF rec] st' i dry show ?thesis
    by blast
qed


lemma lookup_entry:
  "lookup_ok st \<Longrightarrow> map_of (aircraftByReg st) r = Some j \<Longrightarrow>
   j < length (aircraft (catalog st)) \<and> registration (aircraft (catalog st) ! j) = r"
  by (auto simp: lookup_ok_def list_all_iff dest!: map_of_SomeD)

lemma new_registration:
  "registration (transformToSchema raw d n1 n2) = obs_registration raw"
  "record_flights (transformToSchema raw d n1 n2) = 1"
  by (simp_all add: transformToSchema_def Let_def record_flights_def flights_count_def)

lemma process_aircraft_effect:
  assumes step: "process_aircraft opts clock d st (reg, raw) = Inr st'"
    and ok: "lookup_ok st" and reg: "reg = obs_registration raw"
  shows "lookup_ok st'"
    and "r \<noteq> reg \<Longrightarrow> flights_of st' r = flights_of st r"
    and "flights_of st' reg
           = (if dryRun opts then flights_of st reg else to_double (flights_of st reg + 1))"
    and "dryRun opts \<Longrightarrow> catalog st' = catalog st"
proof -
  let ?acs = "aircraft (catalog st)"
  let ?new = "transformToSchema raw d (clock (ticks st)) (clock (ticks st + 1))"
  have "lookup_ok st'
    \<and> (r \<noteq> reg \<longrightarrow> flights_of st' r = flights_of st r)
    \<and> flights_of st' reg
        = (if dryRun opts then flights_of st reg else to_double (flights_of st reg + 1))
    \<and> (dryRun opts \<longrightarrow> catalog st' = catalog st)"
  proof (cases "map_of (aircraftByReg st) reg")
    case None
    note new = process_aircraft_new [OF None step]
    show ?thesis
    proof (cases "dryRun opts")
      case True
      with new(1) have eq: "catalog st' = catalog st" "aircraftByReg st' = aircraftByReg st"
        by simp_all
      have "flights_of st' x = flights_of st x" for x
        unfolding flights_of_def eq by (rule refl)
      moreover have "lookup_ok st'"
        using ok unfolding lookup_ok_def eq .
      ultimately show ?thesis using eq True by simp
    next
      case False
      with new(2) have acs': "aircraft (catalog st') = ?acs @ [?new]"
        and by': "aircraftByReg st' = map_set reg (length ?acs) (aircraftByReg st)"
        by simp_all
      have old: "list_all (\<lambda>(reg, i). i < length (?acs @ [?new])
                 \<and> registration ((?acs @ [?new]) ! i) = reg) (aircraftByReg st)"
        using ok by (auto simp: lookup_ok_def list_all_iff nth_append)
      have "list_all (\<lambda>(reg, i). i < length (?acs @ [?new])
                 \<and> registration ((?acs @ [?new]) ! i) = reg)
              (map_set reg (length ?acs) (aircraftByReg st))"
        using old by (rule list_all_map_set) (simp add: new_registration reg)
      then have ok': "lookup_ok st'"
        by (simp add: lookup_ok_def acs' by')
      have other: "flights_of st' r = flights_of st r" if "r \<noteq> reg"
      proof (cases "map_of (aircraftByReg st) r")
        case None
        with that show ?thesis
          by (simp add: flights_of_def by' map_of_map_set)
      next
        case (Some j)
        with ok have "j < length ?acs" by (auto dest: lookup_entry)
        with Some that show ?thesis
          by (simp add: flights_of_def by' acs' map_of_map_set nth_append)
      qed
      have "flights_of st reg = 0" using None by (simp add: flights_of_def)
      moreover have "flights_of st' reg = 1"
        by (simp add: flights_of_def by' acs' map_of_map_set new_registration)
      ultimately show ?thesis using ok' other False by (simp add: to_double_one)
    qed
  next
    case (Some i)
    from process_aircraft_existing [OF Some step] obtain rec'
      where i: "i < length ?acs" and by': "aircraftByReg st' = aircraftByReg st"
        and acs': "aircraft (catalog st') = ?acs[i := rec']"
        and same: "registration rec' = registration (?acs ! i)"
        and cnt: "record_flights rec'
                    = (if dryRun opts then record_flights (?acs ! i)
                       else to_double (record_flights (?acs ! i) + 1))"
        and dry: "dryRun opts \<longrightarrow> catalog st' = catalog st"
      by blast
    have ok': "lookup_ok st'"
      unfolding lookup_ok_def by' acs' list_all_iff
    proof (intro ballI)
      fix e assume e: "e \<in> set (aircraftByReg st)"
      obtain r' j where rj: "e = (r', j)" by (cases e)
      with e ok have j: "j < length ?acs" "registration (?acs ! j) = r'"
        by (auto simp: lookup_ok_def list_all_iff)
      then have "registration (?acs[i := rec'] ! j) = r'"
        using same by (cases "j = i") simp_all
      with j show "case e of (reg, k) \<Rightarrow> k < length (?acs[i := rec'])
          \<and> registration (?acs[i := rec'] ! k) = reg"
        by (simp add: rj)
    qed
    have other: "flights_of st' r = flights_of st r" if "r \<noteq> reg"
    proof (cases "map_of (aircraftByReg st) r")
      case None
      then show ?thesis by (simp add: flights_of_def by')
    next
      case (Some j)
      from lookup_entry [OF ok Some] lookup_entry [OF ok \<open>map_of (aircraftByReg st) reg = Some i\<close>]
        that
      have "j \<noteq> i" by auto
      with Some show ?thesis
        by (simp add: flights_of_def by' acs')
    qed
    have "flights_of st reg = record_flights (?acs ! i)"
      using Some by (simp add: flights_of_def)
    moreover have "flights_of st' reg = record_flights rec'"
      using Some i by (simp add: flights_of_def by' acs')
    ultimately show ?thesis using ok' other cnt dry by simp
  qed
  then show "lookup_ok st'"
    and "r \<noteq> reg \<Longrightarrow> flights_of st' r = flights_of st r"
    and "flights_of st' reg
           = (if dryRun opts then flights_of st reg else to_double (flights_of st reg + 1))"
    and "dryRun opts \<Longrightarrow> catalog st' = catalog st"
    by simp_all
qed

lemma process_all_effect:
  "process_all opts clock d st entries = Inr st' \<Longrightarrow> lookup_ok st \<Longrightarrow>
   distinct (map fst entries) \<Longrightarrow> list_all (\<lambda>e. fst e = obs_registration (snd e)) entries \<Longrightarrow>
   lookup_ok st'
   \<and> flights_of st' r
       = (if dryRun opts \<or> r \<notin> fst ` set entries then flights_of st r
          else to_double (flights_of st r + 1))
   \<and> (dryRun opts \<longrightarrow> catalog st' = catalog st)"
proof (induction entries arbitrary: st)
  case Nil
  then show ?case by simp
next
  case (Cons e es)
  obtain reg raw where e: "e = (reg, raw)" by (cases e)
  from Cons.prems(1) obtain st1
    where step: "process_aircraft opts clock d st (reg, raw) = Inr st1"
      and rest: "process_all opts clock d st1 es = Inr st'"
    by (auto simp: e split: sum.splits)
  from Cons.prems(4) have reg: "reg = obs_registration raw" by (simp add: e)
  note eff = process_aircraft_effect [OF step Cons.prems(2) reg]
  from Cons.prems(3,4) have "distinct (map fst es)"
    "list_all (\<lambda>e. fst e = obs_registration (snd e)) es"
    by simp_all
  from Cons.IH [OF rest eff(1) this]
  have ih: "lookup_ok st'"
    "flights_of st' r
       = (if dryRun opts \<or> r \<notin> fst ` set es then flights_of st1 r
          else to_double (flights_of st1 r + 1))"
    "dryRun opts \<longrightarrow> catalog st' = catalog st1"
    by simp_all
  from Cons.prems(3) have notin: "reg \<notin> fst ` set es" by (simp add: e)
  show ?case
  proof (cases "r = reg")
    case True
    with ih eff(3,4) notin show ?thesis by (auto simp: e)
  next
    case False
    with ih eff(2) [OF False] eff(4) show ?thesis by (auto simp: e)
  qed
qed

lemma process_date_effect:
  assumes "process_date opts clock d flights st = Inr st'" and "lookup_ok st"
  shows "lookup_ok st'"
    and "flights_of st' r
           = (if dryRun opts \<or> map_of (collect_seen (airlineCode opts) flights []) r = None
              then flights_of st r else to_double (flights_of st r + 1))"
    and "dryRun opts \<Longrightarrow> catalog st' = catalog st"
proof -
  from collect_seen_keys [of "[]" ac flights for ac]
  have keys: "distinct (map fst (collect_seen (airlineCode opts) flights []))"
    "list_all (\<lambda>e. fst e = obs_registration (snd e)) (collect_seen (airlineCode opts) flights [])"
    by simp_all
  from process_all_effect [OF assms(1) [unfolded process_date_def] assms(2) keys, of r]
  show "lookup_ok st'"
    and "flights_of st' r
           = (if dryRun opts \<or> map_of (collect_seen (airlineCode opts) flights []) r = None
              then flights_of st r else to_double (flights_of st r + 1))"
    and "dryRun opts \<Longrightarrow> catalog st' = catalog st"
    by (simp_all add: map_of_eq_None_iff)
qed

lemma observed_iff:
  "(map_of (collect_seen ac flights []) r = None)
     = (filter (\<lambda>ex. obs_registration ex = r)
          (List.map_filter (\<lambda>fl. extractAircraftFromFlight fl ac) flights) = [])"
  by (simp add: map_of_collect_seen split: list.splits)

lemma safe_count_step:
  "safe_count n \<Longrightarrow> n \<le> to_double (n + 1) \<and> to_double (n + 1) \<le> n + 1"
  by (simp add: safe_count_def to_double_exact)

lemma process_dates_effect:
  "process_dates opts srv clock ds cs = Inr cs' \<Longrightarrow> lookup_ok (snd cs) \<Longrightarrow>
   lookup_ok (snd cs') \<and> (dryRun opts \<longrightarrow> catalog (snd cs') = catalog (snd cs))"
proof (induction ds arbitrary: cs)
  case Nil
  then show ?case by simp
next
  case (Cons d ds)
  from Cons.prems(1) obtain flights c1 st1
    where "process_date opts clock d flights (snd cs) = Inr st1"
      and rest: "process_dates opts srv clock ds (c1, st1) = Inr cs'"
    by (auto split: prod.splits sum.splits)
  from process_date_effect(1,3) [OF this(1) Cons.prems(2)] Cons.IH [OF rest]
  show ?case by auto
qed

text \<open>
  C9, as the code has it. In any state the loop reaches from the initial one, processing
  one more date adds 1 to \<open>total_flights\<close> of the record of a registration once,
  whatever the number of the flights of that date the registration is extracted from, when
  the run is not a dry run and there is such a flight; otherwise the counter stays as it
  is. The addition is one of doubles: a counter below \<open>2^53\<close> rises by at most 1.
  \<^verbatim>\<open>seenToday\<close> has one entry per registration, the last observation extracted for it.
\<close>

theorem total_flights_once_per_date:
  "process_dates opts srv clock ds (c0, initial_state opts clock stored) = Inr (c, st)
   \<and> process_date opts clock d flights st = Inr st' \<longrightarrow>
     flights_of st' reg
       = (if dryRun opts
             \<or> filter (\<lambda>ex. obs_registration ex = reg)
                  (List.map_filter (\<lambda>fl. extractAircraftFromFlight fl (airlineCode opts)) flights)
                = []
          then flights_of st reg else to_double (flights_of st reg + 1))
     \<and> (safe_count (flights_of st reg) \<longrightarrow>
          flights_of st reg \<le> flights_of st' reg \<and> flights_of st' reg \<le> flights_of st reg + 1)
     \<and> distinct (map fst (collect_seen (airlineCode opts) flights []))
     \<and> map_of (collect_seen (airlineCode opts) flights []) reg
         = (case filter (\<lambda>ex. obs_registration ex = reg)
                  (List.map_filter (\<lambda>fl. extractAircraftFromFlight fl (airlineCode opts)) flights) of
              [] \<Rightarrow> None
            | ex # exs \<Rightarrow> Some (last (ex # exs)))"
proof
  assume h: "process_dates opts srv clock ds (c0, initial_state opts clock stored) = Inr (c, st)
   \<and> process_date opts clock d flights st = Inr st'"
  let ?obs = "filter (\<lambda>ex. obs_registration ex = reg)
                  (List.map_filter (\<lambda>fl. extractAircraftFromFlight fl (airlineCode opts)) flights)"
  from h have "lookup_ok st"
    using process_dates_effect [of opts srv clock ds "(c0, initial_state opts clock stored)" "(c, st)"]
    by (simp add: lookup_ok_initial)
  with h have "flights_of st' reg
           = (if dryRun opts \<or> map_of (collect_seen (airlineCode opts) flights []) reg = None
              then flights_of st reg else to_double (flights_of st reg + 1))"
    using process_date_effect(2) [of opts clock d flights st st' reg] by simp
  then have once: "flights_of st' reg
       = (if dryRun opts \<or> ?obs = [] then flights_of st reg
          else to_double (flights_of st reg + 1))"
    by (simp only: observed_iff)
  have safe: "flights_of st reg \<le> flights_of st' reg \<and> flights_of st' reg \<le> flights_of st reg + 1"
    if "safe_count (flights_of st reg)"
    using safe_count_step [OF that] once by (simp split: if_splits)
  have "distinct (map fst (collect_seen (airlineCode opts) flights []))"
    using collect_seen_keys [of "[]" "airlineCode opts" flights] by simp
  moreover have "map_of (collect_seen (airlineCode opts) flights []) reg
         = (case ?obs of [] \<Rightarrow> None | ex # exs \<Rightarrow> Some (last (ex # exs)))"
    by (simp add: map_of_collect_seen split: list.splits)
  ultimately show "flights_of st' reg
       = (if dryRun opts \<or> ?obs = [] then flights_of st reg
          else to_double (flights_of st reg + 1))
     \<and> (safe_count (flights_of st reg) \<longrightarrow>
          flights_of st reg \<le> flights_of st' reg \<and> flights_of st' reg \<le> flights_of st reg + 1)
     \<and> distinct (map fst (collect_seen (airlineCode opts) flights []))
     \<and> map_of (collect_seen (airlineCode opts) flights []) reg
         = (case ?obs of [] \<Rightarrow> None | ex # exs \<Rightarrow> Some (last (ex # exs)))"
    using once safe by simp
qed



lemma example_server_ok: "resp_ok (example_server n rq)"
  by (simp add: example_server_def resp_ok_def)

lemma example_fetch:
  "\<exists>c'. fetchFlightsForDate example_server c d a = (Inr example_flights, c')"
proof -
  from apiRequest_ok [where srv = example_server and c = c and d = d and a = a and p = 0,
      OF example_server_ok]
  obtain c' n rq where "apiRequest example_server c d a 0 0
      = (Inr (resp_body (example_server n rq)), c')"
    by blast
  then have "fetch_pages example_server c d a 0 [] = (Inr example_flights, c')"
    by (subst fetch_pages.simps) (simp add: example_server_def Let_def)
  then show ?thesis by (auto simp: fetchFlightsForDate_def)
qed

lemma example_main:
  assumes "process_date (example_options dry) example_clock ''2026-02-10'' example_flights
      (initial_state (example_options dry) example_clock (Some example_catalog)) = Inr st"
  shows "\<exists>c'. main (example_options dry) example_server lc example_clock example_client
      (Some example_catalog) = Inr (finish (example_options dry) lc example_clock (c', st))"
proof -
  from example_fetch [of example_client "''2026-02-10''" "''AF''"] obtain c'
    where "fetchFlightsForDate example_server example_client ''2026-02-10'' ''AF''
      = (Inr example_flights, c')"
    by blast
  with assms show ?thesis
    by (intro exI [of _ c']) (simp add: main_def example_options_sel)
qed

text \<open>
  The example run, with the comparison by code units. The A220 is new, and the catalog is
  written with three aircraft: F-HZZZ, whose type code is \<^verbatim>\<open>null\<close> and counts as the
  empty string, then the A220 F-HZUA (type 223), then the A350 F-HTYA (type 359). By
  registration alone the order would be the reverse.
\<close>

theorem catalog_saved_sorted_witness:
  "consistent compare_code_units
   \<and> (\<exists>out. main (example_options False) example_server compare_code_units example_clock
         example_client (Some example_catalog) = Inr out
       \<and> dryRun (example_options False) = False
       \<and> totalNew (final_state out) = 1
       \<and> (\<exists>cat. catalog_file out = Some cat
             \<and> aircraft_count cat = 3
             \<and> map registration (aircraft cat) = [''F-HZZZ'', ''F-HZUA'', ''F-HTYA'']
             \<and> map type_key (aircraft cat) = [[], ''223'', ''359'']
             \<and> map (\<lambda>a. opt_chain (aircraft_type a) iata_code) (aircraft cat)
                 = [JNull, JStr ''223'', JStr ''359'']
             \<and> sorted_wrt (catalog_order compare_code_units) (aircraft cat)))"
proof -
  from example_process obtain st a1 a2 a3
    where run: "process_date (example_options False) example_clock ''2026-02-10'' example_flights
          (initial_state (example_options False) example_clock (Some example_catalog)) = Inr st"
      and acs: "aircraft (catalog st) = [a1, a2, a3]"
      and regs: "registration a1 = ''F-HTYA''" "registration a2 = ''F-HZZZ''"
        "registration a3 = ''F-HZUA''"
      and keys: "type_key a1 = ''359''" "type_key a2 = []" "type_key a3 = ''223''"
      and codes: "opt_chain (aircraft_type a1) iata_code = JStr ''359''"
        "opt_chain (aircraft_type a2) iata_code = JNull"
        "opt_chain (aircraft_type a3) iata_code = JStr ''223''"
      and new: "totalNew st = 1"
    by auto
  from example_main [OF run, of compare_code_units] obtain c'
    where main: "main (example_options False) example_server compare_code_units example_clock
         example_client (Some example_catalog)
       = Inr (finish (example_options False) compare_code_units example_clock (c', st))"
    by auto
  let ?out = "finish (example_options False) compare_code_units example_clock (c', st)"
  have sorted: "js_sort (compareAircraft compare_code_units) [a1, a2, a3] = [a2, a3, a1]"
    using regs codes
    by (simp add: js_sort_def compareAircraft_def compare_code_units_def or_empty_def
        less_char_def Let_def)
  obtain cat where cat: "catalog_file ?out = Some cat" "aircraft cat = [a2, a3, a1]"
    using new by (simp add: finish_def Let_def example_options_sel acs sorted)
  from catalog_saved_sorted [of compare_code_units "example_options False" example_server
      example_clock example_client "Some example_catalog" ?out]
    compare_code_units_consistent main cat
  have "aircraft_count cat = int (length (aircraft cat))"
    and "sorted_wrt (catalog_order compare_code_units) (aircraft cat)"
    by simp_all
  with cat regs keys codes have "\<exists>cat. catalog_file ?out = Some cat
             \<and> aircraft_count cat = 3
             \<and> map registration (aircraft cat) = [''F-HZZZ'', ''F-HZUA'', ''F-HTYA'']
             \<and> map type_key (aircraft cat) = [[], ''223'', ''359'']
             \<and> map (\<lambda>a. opt_chain (aircraft_type a) iata_code) (aircraft cat)
                 = [JNull, JStr ''223'', JStr ''359'']
             \<and> sorted_wrt (catalog_order compare_code_units) (aircraft cat)"
    by simp
  moreover have "totalNew (final_state ?out) = 1"
    using new by (simp add: finish_def Let_def)
  ultimately show ?thesis
    using compare_code_units_consistent main
    by (intro conjI exI [of _ ?out]) (simp_all add: example_options_sel)
qed

text \<open>
  The example date has two flights of F-HTYA; its counter goes from 1 to 2.
\<close>

theorem total_flights_once_per_date_witness:
  "process_dates (example_options False) example_server example_clock []
      (example_client, initial_state (example_options False) example_clock (Some example_catalog))
     = Inr (example_client,
         initial_state (example_options False) example_clock (Some example_catalog))
   \<and> length (filter (\<lambda>ex. obs_registration ex = ''F-HTYA'')
        (List.map_filter (\<lambda>fl. extractAircraftFromFlight fl ''AF'') example_flights)) = 2
   \<and> flights_of (initial_state (example_options False) example_clock (Some example_catalog))
        ''F-HTYA'' = 1
   \<and> safe_count (flights_of (initial_state (example_options False) example_clock
        (Some example_catalog)) ''F-HTYA'')
   \<and> (\<exists>st'. process_date (example_options False) example_clock ''2026-02-10'' example_flights
          (initial_state (example_options False) example_clock (Some example_catalog)) = Inr st'
        \<and> flights_of st' ''F-HTYA'' = 2
        \<and> flights_of st' ''F-HTYA''
            = to_double (flights_of (initial_state (example_options False) example_clock
                 (Some example_catalog)) ''F-HTYA'' + 1)
        \<and> flights_of st' ''F-HTYA''
            \<le> flights_of (initial_state (example_options False) example_clock
                 (Some example_catalog)) ''F-HTYA'' + 1)"
proof -
  let ?st = "initial_state (example_options False) example_clock (Some example_catalog)"
  from example_process obtain st'
    where run: "process_date (example_options False) example_clock ''2026-02-10'' example_flights
          ?st = Inr st'"
      and two: "flights_of st' ''F-HTYA'' = 2"
    by auto
  have start: "process_dates (example_options False) example_server example_clock []
      (example_client, ?st) = Inr (example_client, ?st)"
    by simp
  have safe: "safe_count (flights_of ?st ''F-HTYA'')"
    by (simp add: example_initial_flights safe_count_def)
  have obs: "filter (\<lambda>ex. obs_registration ex = ''F-HTYA'')
        (List.map_filter (\<lambda>fl. extractAircraftFromFlight fl ''AF'') example_flights) \<noteq> []"
    using example_extracted by auto
  from total_flights_once_per_date [of "example_options False" example_server example_clock "[]"
      example_client "Some example_catalog" example_client ?st
      "''2026-02-10''" example_flights st' "''F-HTYA''"] start run safe obs
  have "flights_of st' ''F-HTYA'' = to_double (flights_of ?st ''F-HTYA'' + 1)"
    and "flights_of st' ''F-HTYA'' \<le> flights_of ?st ''F-HTYA'' + 1"
    by (simp_all add: example_options_sel)
  with run two have "\<exists>st'. process_date (example_options False) example_clock ''2026-02-10''
          example_flights ?st = Inr st'
        \<and> flights_of st' ''F-HTYA'' = 2
        \<and> flights_of st' ''F-HTYA'' = to_double (flights_of ?st ''F-HTYA'' + 1)
        \<and> flights_of st' ''F-HTYA'' \<le> flights_of ?st ''F-HTYA'' + 1"
    by (intro exI [of _ st']) simp
  with start safe show ?thesis
    using example_extracted example_initial_flights [of False] by (intro conjI) simp_all
qed

text \<open>
  C9 as stated fails: a counter does not always rise by at most 1 on a date. With the
  counter of F-HTYA at \<open>2^53 + 2\<close> in the stored catalog, the example date takes it to
  \<open>2^53 + 4\<close>: the sum \<open>2^53 + 3\<close> is not a double and rounds to the even neighbour.
\<close>

theorem total_flights_rises_by_two_counterexample:
  "process_dates (example_options False) example_server example_clock []
      (example_client,
       initial_state (example_options False) example_clock (Some saturated_catalog))
     = Inr (example_client,
         initial_state (example_options False) example_clock (Some saturated_catalog))
   \<and> flights_of (initial_state (example_options False) example_clock (Some saturated_catalog))
        ''F-HTYA'' = 9007199254740994
   \<and> (\<exists>st'. process_date (example_options False) example_clock ''2026-02-10'' example_flights
          (initial_state (example_options False) example_clock (Some saturated_catalog))
            = Inr st'
        \<and> flights_of st' ''F-HTYA'' = 9007199254740996
        \<and> flights_of (initial_state (example_options False) example_clock
             (Some saturated_catalog)) ''F-HTYA'' + 1 < flights_of st' ''F-HTYA'')"
proof -
  let ?st = "initial_state (example_options False) example_clock (Some saturated_catalog)"
  have start: "flights_of ?st ''F-HTYA'' = 9007199254740994"
    by (rule saturated_initial_flights)
  from saturated_process obtain st'
    where "process_date (example_options False) example_clock ''2026-02-10'' example_flights
          ?st = Inr st'"
      and "flights_of st' ''F-HTYA'' = 9007199254740996"
    by auto
  with start have "\<exists>st'. process_date (example_options False) example_clock ''2026-02-10''
          example_flights ?st = Inr st'
        \<and> flights_of st' ''F-HTYA'' = 9007199254740996
        \<and> flights_of ?st ''F-HTYA'' + 1 < flights_of st' ''F-HTYA''"
    by (intro exI [of _ st']) simp
  with start show ?thesis by simp
qed


end
